theory Spec2Isabelle
  imports Complex_Main "HOL-Library.Char_ord"
begin

section \<open>The greenwashing audit pipeline of app.py\<close>

text \<open>
  The theory embeds \<^verbatim>\<open>process_pdfs\<close> of \<^verbatim>\<open>src/app.py\<close>: the company-name lookup,
  the page loop with its four regular-expression searches, the policy count, the
  scoring arithmetic and the per-file exception handler.

  Modelling decisions, fixed here once:
  \<^item> A Python \<^verbatim>\<open>str\<close> is a \<open>string\<close>. Letters are the ASCII letters and digits the ASCII
    digits, which is what \<^verbatim>\<open>re.IGNORECASE\<close>, \<^verbatim>\<open>\d\<close> and \<^verbatim>\<open>str.title\<close> see on
    8-bit text.
  \<^item> A Python \<^verbatim>\<open>float\<close> is a \<open>rat\<close>: arithmetic is exact. Binary rounding error,
    and with it the way \<^verbatim>\<open>round\<close> goes on a decimal tie such as 0.05, overflow to
    infinity and NaN are outside the model.
  \<^item> An exception is a value: the body of the \<^verbatim>\<open>try\<close> block returns
    \<open>py_exception + document_record\<close>, and the handler of the batch loop maps every
    \<open>Inl\<close> to "no record".
  \<^item> The outside world is data: a directory is the list \<^verbatim>\<open>os.listdir\<close> returns, each
    name paired with what \<^verbatim>\<open>pdfplumber\<close> does on that file.
\<close>

subsection \<open>Characters and string helpers of the Python library\<close>

definition is_digit :: "char \<Rightarrow> bool" where
  "is_digit c = (CHR ''0'' \<le> c \<and> c \<le> CHR ''9'')"

definition is_upper :: "char \<Rightarrow> bool" where
  "is_upper c = (CHR ''A'' \<le> c \<and> c \<le> CHR ''Z'')"

definition is_lower :: "char \<Rightarrow> bool" where
  "is_lower c = (CHR ''a'' \<le> c \<and> c \<le> CHR ''z'')"

definition is_cased :: "char \<Rightarrow> bool" where
  "is_cased c = (is_upper c \<or> is_lower c)"

text \<open>
  In ASCII a letter's two cases differ in one bit, of value 32: set in the lower-case
  letter, clear in the upper-case one.
\<close>

definition lower :: "char \<Rightarrow> char" where
  "lower c =
     (if is_upper c
      then (case c of Char b0 b1 b2 b3 b4 b5 b6 b7 \<Rightarrow> Char b0 b1 b2 b3 b4 True b6 b7)
      else c)"

definition upper :: "char \<Rightarrow> char" where
  "upper c =
     (if is_lower c
      then (case c of Char b0 b1 b2 b3 b4 b5 b6 b7 \<Rightarrow> Char b0 b1 b2 b3 b4 False b6 b7)
      else c)"

definition newline :: char where
  "newline = CHR 0x0A"

text \<open>\<^verbatim>\<open>s.endswith(suf)\<close>.\<close>

definition endswith :: "string \<Rightarrow> string \<Rightarrow> bool" where
  "endswith s suf = (length suf \<le> length s \<and> drop (length s - length suf) s = suf)"

text \<open>
  \<^verbatim>\<open>s.replace(old, new)\<close> for a non-empty \<open>old\<close> (the call sites pass \<^verbatim>\<open>".pdf"\<close>,
  \<^verbatim>\<open>"_"\<close> and \<^verbatim>\<open>","\<close>): every occurrence, left to right, without overlap.
\<close>

fun replace :: "string \<Rightarrow> string \<Rightarrow> string \<Rightarrow> string" where
  "replace old new [] = []"
| "replace old new (c # cs) =
     (if old \<noteq> [] \<and> take (length old) (c # cs) = old
      then new @ replace old new (drop (length old - 1) cs)
      else c # replace old new cs)"

text \<open>
  \<^verbatim>\<open>s.title()\<close>: a cased character that follows a cased character is lower-cased,
  every other character is upper-cased.
\<close>

fun title_from :: "bool \<Rightarrow> string \<Rightarrow> string" where
  "title_from prev [] = []"
| "title_from prev (c # cs) =
     (if prev then lower c else upper c) # title_from (is_cased c) cs"

definition title :: "string \<Rightarrow> string" where
  "title s = title_from False s"

subsection \<open>The regular expressions\<close>

text \<open>
  A literal of the pattern matches at the head of the text, ignoring case
  (\<^verbatim>\<open>re.IGNORECASE\<close>).
\<close>

fun ci_prefix :: "string \<Rightarrow> string \<Rightarrow> bool" where
  "ci_prefix [] s = True"
| "ci_prefix (p # ps) [] = False"
| "ci_prefix (p # ps) (c # cs) = (lower p = lower c \<and> ci_prefix ps cs)"

text \<open>The class \<^verbatim>\<open>[\d,]\<close>.\<close>

definition num_char :: "char \<Rightarrow> bool" where
  "num_char c = (is_digit c \<or> c = CHR '','')"

text \<open>
  Group 2, \<^verbatim>\<open>([\d,]+\.?\d*)\<close>, at a text whose head is in \<^verbatim>\<open>[\d,]\<close>: the three
  quantifiers are greedy and nothing follows them in the pattern, so each takes the
  longest run and none gives anything back.
\<close>

definition number_group :: "string \<Rightarrow> string" where
  "number_group s =
     (let run = takeWhile num_char s; rest = dropWhile num_char s
      in (case rest of
            [] \<Rightarrow> run
          | d # rest' \<Rightarrow>
              if d = CHR ''.'' then run @ d # takeWhile is_digit rest' else run))"

text \<open>
  \<^verbatim>\<open>.*?([\d,]+\.?\d*)\<close> at the head of the text. The lazy \<^verbatim>\<open>.*?\<close> first tries to stop:
  group 2 starts here when the head is in \<^verbatim>\<open>[\d,]\<close>. Otherwise \<^verbatim>\<open>.\<close> eats the head,
  which without \<^verbatim>\<open>re.DOTALL\<close> must not be a newline. The result is the text eaten by
  \<^verbatim>\<open>.*?\<close> and group 2.
\<close>

fun lazy_dot_number :: "string \<Rightarrow> (string \<times> string) option" where
  "lazy_dot_number [] = None"
| "lazy_dot_number (c # cs) =
     (if num_char c then Some ([], number_group (c # cs))
      else if c = newline then None
      else (case lazy_dot_number cs of
              None \<Rightarrow> None
            | Some (gap, num) \<Rightarrow> Some (c # gap, num)))"

text \<open>
  One branch of the alternation in group 1, then the rest of the pattern, anchored at
  the head of the text: the match as (group 0, group 2).
\<close>

definition match_label :: "string \<Rightarrow> string \<Rightarrow> (string \<times> string) option" where
  "match_label lab s =
     (if ci_prefix lab s
      then (case lazy_dot_number (drop (length lab) s) of
              None \<Rightarrow> None
            | Some (gap, num) \<Rightarrow> Some (take (length lab) s @ gap @ num, num))
      else None)"

text \<open>
  \<^verbatim>\<open>(A|B).*?([\d,]+\.?\d*)\<close> anchored at the head of the text: the engine tries \<open>A\<close>
  with all that follows, and \<open>B\<close> only when that fails.
\<close>

definition match_here :: "string \<Rightarrow> string \<Rightarrow> string \<Rightarrow> (string \<times> string) option" where
  "match_here A B s =
     (case match_label A s of
        Some m \<Rightarrow> Some m
      | None \<Rightarrow> match_label B s)"

text \<open>
  \<^verbatim>\<open>re.search(r"(A|B).*?([\d,]+\.?\d*)", text, re.IGNORECASE)\<close>: the leftmost start
  position at which the pattern matches. \<open>None\<close> is Python's \<^verbatim>\<open>None\<close>; \<open>Some (g0, g2)\<close>
  is a match object with \<^verbatim>\<open>group(0) = g0\<close> and \<^verbatim>\<open>group(2) = g2\<close>.
\<close>

fun re_search :: "string \<Rightarrow> string \<Rightarrow> string \<Rightarrow> (string \<times> string) option" where
  "re_search A B [] = match_here A B []"
| "re_search A B (c # cs) =
     (case match_here A B (c # cs) of
        Some m \<Rightarrow> Some m
      | None \<Rightarrow> re_search A B cs)"

text \<open>
  \<^verbatim>\<open>.*?Yes\<close> under \<^verbatim>\<open>re.IGNORECASE | re.DOTALL\<close> at the head of the text: \<^verbatim>\<open>.\<close> eats
  any character, so the literal may start at any later position.
\<close>

fun lazy_any_literal :: "string \<Rightarrow> string \<Rightarrow> bool" where
  "lazy_any_literal lit [] = ci_prefix lit []"
| "lazy_any_literal lit (c # cs) = (ci_prefix lit (c # cs) \<or> lazy_any_literal lit cs)"

text \<open>
  \<^verbatim>\<open>re.search(rf"{p}.*?Yes", full_text, re.IGNORECASE | re.DOTALL)\<close> as a truth value.
  The policy names hold letters and spaces only, so \<open>p\<close> is a literal.
\<close>

fun policy_search :: "string \<Rightarrow> string \<Rightarrow> bool" where
  "policy_search p [] = (ci_prefix p [] \<and> lazy_any_literal ''Yes'' (drop (length p) []))"
| "policy_search p (c # cs) =
     ((ci_prefix p (c # cs) \<and> lazy_any_literal ''Yes'' (drop (length p) (c # cs)))
      \<or> policy_search p cs)"

subsection \<open>Numbers\<close>

definition digit_val :: "char \<Rightarrow> int" where
  "digit_val c = of_char c - 48"

definition digits_val :: "string \<Rightarrow> int" where
  "digits_val ds = foldl (\<lambda>n c. 10 * n + digit_val c) 0 ds"

text \<open>
  \<^verbatim>\<open>float(s)\<close> on the strings that reach it here, digits with at most one point:
  \<open>None\<close> is the \<^verbatim>\<open>ValueError\<close> Python raises when \<open>s\<close> holds no digit. Any other
  shape of \<open>s\<close> is refused as well; group 2 with its commas removed never has one.
\<close>

definition py_float :: "string \<Rightarrow> rat option" where
  "py_float s =
     (let ip = takeWhile is_digit s; rest = dropWhile is_digit s
      in (case rest of
            [] \<Rightarrow> if ip = [] then None else Some (of_int (digits_val ip))
          | d # fp \<Rightarrow>
              if d = CHR ''.'' \<and> list_all is_digit fp \<and> (ip \<noteq> [] \<or> fp \<noteq> [])
              then Some (of_int (digits_val ip) + of_int (digits_val fp) / 10 ^ length fp)
              else None))"

text \<open>
  \<^verbatim>\<open>round(x, 1)\<close> on the exact value: the nearest multiple of one tenth, a tie
  going to the even multiple.
\<close>

definition py_round1 :: "rat \<Rightarrow> rat" where
  "py_round1 x =
     (let y = x * 10; f = \<lfloor>y\<rfloor>; d = y - of_int f
      in (if d < 1 / 2 then of_int f
          else if 1 / 2 < d then of_int (f + 1)
          else if even f then of_int f else of_int (f + 1)) / 10)"

subsection \<open>The outside world\<close>

text \<open>
  What \<^verbatim>\<open>page.extract_text()\<close> does on a page: it returns a string, it returns
  \<^verbatim>\<open>None\<close>, or it raises.
\<close>

datatype page = Text string | NoText | Broken

text \<open>What \<^verbatim>\<open>pdfplumber.open(path)\<close> does on a file: it raises, or it yields the pages.\<close>

datatype pdf = Unreadable | Pdf "page list"

datatype py_exception = OpenError | ExtractError | TypeError | ValueError

subsection \<open>Company names\<close>

definition name_map :: "(string \<times> string) list" where
  "name_map =
     [(''acc.pdf'', ''ACC Limited''),
      (''adani green.pdf'', ''Adani Green Energy Ltd.''),
      (''Adani power.pdf'', ''Adani Power Ltd.''),
      (''ambuja.pdf'', ''Ambuja Cements Ltd.''),
      (''BPCL.pdf'', ''Bharat Petroleum Corporation Ltd.''),
      (''Hindalco.pdf'', ''Hindalco Industries Ltd.''),
      (''HPCL.pdf'', ''Hindustan Petroleum Corp. Ltd.''),
      (''IOCL.pdf'', ''Indian Oil Corporation Ltd.''),
      (''Jindal Steel.pdf'', ''Jindal Steel & Power Ltd.''),
      (''Jsw energy.pdf'', ''JSW Energy Ltd.''),
      (''Jsw Steel.pdf'', ''JSW Steel Ltd.''),
      (''Nacl.pdf'', ''National Aluminium Company Ltd.''),
      (''Nhpc.pdf'', ''NHPC Limited''),
      (''Nmdc.pdf'', ''NMDC Limited''),
      (''NTPC.pdf'', ''NTPC Limited''),
      (''oil india.pdf'', ''Oil India Limited''),
      (''Ongc.pdf'', ''Oil and Natural Gas Corporation''),
      (''Reliance.pdf'', ''Reliance Industries Ltd.''),
      (''SAIL.pdf'', ''Steel Authority of India Ltd.''),
      (''Shree cement.pdf'', ''Shree Cement Ltd.''),
      (''Sjvn.pdf'', ''SJVN Limited''),
      (''Tata power.pdf'', ''Tata Power Company Ltd.''),
      (''Tata Steel.pdf'', ''Tata Steel Ltd.''),
      (''Ultratech.pdf'', ''UltraTech Cement Ltd.''),
      (''Vedanta.pdf'', ''Vedanta Limited'')]"

text \<open>
  \<^verbatim>\<open>name_map.get(filename, filename.replace(".pdf", "").replace("_", " ").title())\<close>
\<close>

definition company_name :: "string \<Rightarrow> string" where
  "company_name filename =
     (case map_of name_map filename of
        Some formal \<Rightarrow> formal
      | None \<Rightarrow> title (replace ''_'' '' '' (replace ''.pdf'' '''' filename)))"

subsection \<open>The page loop\<close>

text \<open>The local variables of one file's pass that the page loop reads and writes.\<close>

record scan_state =
  full_text :: string
  csr_spend :: rat
  renewable_energy :: rat
  total_energy :: rat
  ghg_emissions :: rat
  csr_snippet :: string
  renew_snippet :: string

definition init_state :: scan_state where
  "init_state =
     \<lparr>full_text = '''', csr_spend = 0, renewable_energy = 0, total_energy = 1,
      ghg_emissions = 0, csr_snippet = ''Not Found'', renew_snippet = ''Not Found''\<rparr>"

text \<open>
  The four \<^verbatim>\<open>if\<close> blocks of the loop body. Each is guarded by its variable still
  holding the initial value; \<^verbatim>\<open>float\<close> raising leaves the block, the loop and the
  \<^verbatim>\<open>try\<close> body.
\<close>

definition csr_step :: "scan_state \<Rightarrow> string \<Rightarrow> py_exception + scan_state" where
  "csr_step st text =
     (if csr_spend st = 0
      then (case re_search ''Community Spending'' ''CSR Expenditure'' text of
              None \<Rightarrow> Inr st
            | Some (g0, g2) \<Rightarrow>
                (case py_float (replace '','' '''' g2) of
                   None \<Rightarrow> Inl ValueError
                 | Some v \<Rightarrow> Inr (st\<lparr>csr_spend := v, csr_snippet := g0\<rparr>)))
      else Inr st)"

definition renew_step :: "scan_state \<Rightarrow> string \<Rightarrow> py_exception + scan_state" where
  "renew_step st text =
     (if renewable_energy st = 0
      then (case re_search ''Renewable Energy Use'' ''Renewable Energy'' text of
              None \<Rightarrow> Inr st
            | Some (g0, g2) \<Rightarrow>
                (case py_float (replace '','' '''' g2) of
                   None \<Rightarrow> Inl ValueError
                 | Some v \<Rightarrow> Inr (st\<lparr>renewable_energy := v, renew_snippet := g0\<rparr>)))
      else Inr st)"

definition energy_step :: "scan_state \<Rightarrow> string \<Rightarrow> py_exception + scan_state" where
  "energy_step st text =
     (if total_energy st = 1
      then (case re_search ''Total Energy Consumption'' ''Energy Consumption'' text of
              None \<Rightarrow> Inr st
            | Some (g0, g2) \<Rightarrow>
                (case py_float (replace '','' '''' g2) of
                   None \<Rightarrow> Inl ValueError
                 | Some v \<Rightarrow> Inr (st\<lparr>total_energy := v\<rparr>)))
      else Inr st)"

definition ghg_step :: "scan_state \<Rightarrow> string \<Rightarrow> py_exception + scan_state" where
  "ghg_step st text =
     (if ghg_emissions st = 0
      then (case re_search ''GHG Scope 1'' ''Scope 1 Emissions'' text of
              None \<Rightarrow> Inr st
            | Some (g0, g2) \<Rightarrow>
                (case py_float (replace '','' '''' g2) of
                   None \<Rightarrow> Inl ValueError
                 | Some v \<Rightarrow> Inr (st\<lparr>ghg_emissions := v\<rparr>)))
      else Inr st)"

text \<open>
  The loop body on one page. \<^verbatim>\<open>full_text += text\<close> raises \<^verbatim>\<open>TypeError\<close> when
  \<^verbatim>\<open>extract_text\<close> returned \<^verbatim>\<open>None\<close>.
\<close>

definition page_step :: "scan_state \<Rightarrow> page \<Rightarrow> py_exception + scan_state" where
  "page_step st pg =
     (case pg of
        Broken \<Rightarrow> Inl ExtractError
      | NoText \<Rightarrow> Inl TypeError
      | Text text \<Rightarrow>
          (case csr_step (st\<lparr>full_text := full_text st @ text\<rparr>) text of
             Inl e \<Rightarrow> Inl e
           | Inr st1 \<Rightarrow>
               (case renew_step st1 text of
                  Inl e \<Rightarrow> Inl e
                | Inr st2 \<Rightarrow>
                    (case energy_step st2 text of
                       Inl e \<Rightarrow> Inl e
                     | Inr st3 \<Rightarrow> ghg_step st3 text))))"

text \<open>\<^verbatim>\<open>for page in ...\<close>: the first exception ends the loop.\<close>

fun scan_pages :: "scan_state \<Rightarrow> page list \<Rightarrow> py_exception + scan_state" where
  "scan_pages st [] = Inr st"
| "scan_pages st (pg # pgs) =
     (case page_step st pg of
        Inl e \<Rightarrow> Inl e
      | Inr st' \<Rightarrow> scan_pages st' pgs)"

subsection \<open>Policy count and scores\<close>

definition policies :: "string list" where
  "policies =
     [''Climate Change Policy'', ''Biodiversity Policy'', ''Water Policy'',
      ''Human Rights Policy'', ''Whistle Blower Policy'']"

text \<open>\<^verbatim>\<open>for p in policies: if re.search(...): policy_count += 1\<close>, from 0.\<close>

definition count_policies :: "string \<Rightarrow> int" where
  "count_policies text =
     foldl (\<lambda>policy_count p. if policy_search p text then policy_count + 1 else policy_count)
       0 policies"

text \<open>
  The scoring block, before rounding: (talk score, walk score, risk score).
\<close>

definition scoring_logic :: "int \<Rightarrow> rat \<Rightarrow> rat \<Rightarrow> rat \<Rightarrow> rat \<times> rat \<times> rat" where
  "scoring_logic policy_count csr renewable energy =
     (let talk_score = (of_int policy_count / of_int (int (length policies))) * 100;
          renew_mix = (if energy > 10 then (renewable / energy) * 100 else 0);
          csr_score = min ((csr / 500) * 50) 50;
          walk_score = renew_mix + csr_score;
          walk_score = (if walk_score > 100 then 100 else walk_score);
          risk_score = talk_score - walk_score;
          risk_score = (if risk_score < 0 then 0 else risk_score)
      in (talk_score, walk_score, risk_score))"

subsection \<open>One file, and the batch\<close>

text \<open>One row of the result: the dictionary appended to \<^verbatim>\<open>data\<close>.\<close>

record document_record =
  Company :: string
  Risk_Score :: rat
  Talk_Score :: rat
  Walk_Score :: rat
  CSR_Spend_Cr :: rat
  Renewable_Energy :: rat
  Total_Energy :: rat
  GHG_Scope_1 :: rat
  Policies :: int
  CSR_Evidence :: string
  Renewable_Evidence :: string

text \<open>
  The body of the \<^verbatim>\<open>for filename in files\<close> loop up to the handler: \<open>Inl\<close> is an
  exception that leaves the \<^verbatim>\<open>try\<close> block, \<open>Inr\<close> the dictionary that
  \<^verbatim>\<open>data.append\<close> receives. Only the first ten pages are visited.
\<close>

definition process_file :: "string \<times> pdf \<Rightarrow> py_exception + document_record" where
  "process_file f =
     (case snd f of
        Unreadable \<Rightarrow> Inl OpenError
      | Pdf pages \<Rightarrow>
          (case scan_pages init_state (take 10 pages) of
             Inl e \<Rightarrow> Inl e
           | Inr st \<Rightarrow>
               (let policy_count = count_policies (full_text st);
                    (talk_score, walk_score, risk_score) =
                      scoring_logic policy_count (csr_spend st) (renewable_energy st)
                        (total_energy st)
                in Inr \<lparr>Company = company_name (fst f),
                        Risk_Score = py_round1 risk_score,
                        Talk_Score = py_round1 talk_score,
                        Walk_Score = py_round1 walk_score,
                        CSR_Spend_Cr = csr_spend st,
                        Renewable_Energy = renewable_energy st,
                        Total_Energy = total_energy st,
                        GHG_Scope_1 = ghg_emissions st,
                        Policies = policy_count,
                        CSR_Evidence = csr_snippet st,
                        Renewable_Evidence = renew_snippet st\<rparr>)))"

text \<open>
  \<^verbatim>\<open>except Exception: continue\<close> around the body: an exception appends nothing.
\<close>

definition file_step :: "document_record list \<Rightarrow> string \<times> pdf \<Rightarrow> document_record list" where
  "file_step data f =
     (case process_file f of
        Inl e \<Rightarrow> data
      | Inr row \<Rightarrow> data @ [row])"

text \<open>
  \<^verbatim>\<open>process_pdfs(folder_path)\<close>. The argument is \<open>None\<close> when the folder does not
  exist, and otherwise the directory listing in the order of \<^verbatim>\<open>os.listdir\<close>. The
  result is the list of rows of the data frame.
\<close>

definition process_pdfs :: "(string \<times> pdf) list option \<Rightarrow> document_record list" where
  "process_pdfs folder =
     (case folder of
        None \<Rightarrow> []
      | Some listing \<Rightarrow>
          foldl file_step [] (filter (\<lambda>f. endswith (fst f) ''.pdf'') listing))"

subsection \<open>Vocabulary for the properties\<close>

text \<open>
  The four extraction fields, each with the two phrases of its pattern, its initial
  value, the variable that holds it, and the snippet variable of the two fields that
  keep evidence.
\<close>

datatype field = CSR | Renewable | Energy | GHG

fun pattern_of :: "field \<Rightarrow> string \<times> string" where
  "pattern_of CSR = (''Community Spending'', ''CSR Expenditure'')"
| "pattern_of Renewable = (''Renewable Energy Use'', ''Renewable Energy'')"
| "pattern_of Energy = (''Total Energy Consumption'', ''Energy Consumption'')"
| "pattern_of GHG = (''GHG Scope 1'', ''Scope 1 Emissions'')"

definition field_search :: "field \<Rightarrow> string \<Rightarrow> (string \<times> string) option" where
  "field_search fld text = re_search (fst (pattern_of fld)) (snd (pattern_of fld)) text"

fun default_of :: "field \<Rightarrow> rat" where
  "default_of CSR = 0"
| "default_of Renewable = 0"
| "default_of Energy = 1"
| "default_of GHG = 0"

fun value_of :: "field \<Rightarrow> scan_state \<Rightarrow> rat" where
  "value_of CSR st = csr_spend st"
| "value_of Renewable st = renewable_energy st"
| "value_of Energy st = total_energy st"
| "value_of GHG st = ghg_emissions st"

fun evidence_of :: "field \<Rightarrow> scan_state \<Rightarrow> string option" where
  "evidence_of CSR st = Some (csr_snippet st)"
| "evidence_of Renewable st = Some (renew_snippet st)"
| "evidence_of Energy st = None"
| "evidence_of GHG st = None"

fun stored_value :: "field \<Rightarrow> document_record \<Rightarrow> rat" where
  "stored_value CSR r = CSR_Spend_Cr r"
| "stored_value Renewable r = Renewable_Energy r"
| "stored_value Energy r = Total_Energy r"
| "stored_value GHG r = GHG_Scope_1 r"

fun stored_evidence :: "field \<Rightarrow> document_record \<Rightarrow> string option" where
  "stored_evidence CSR r = Some (CSR_Evidence r)"
| "stored_evidence Renewable r = Some (Renewable_Evidence r)"
| "stored_evidence Energy r = None"
| "stored_evidence GHG r = None"

text \<open>The evidence a field holds after a match with group 0 \<open>g0\<close>.\<close>

fun evidence_from :: "field \<Rightarrow> string \<Rightarrow> string option" where
  "evidence_from CSR g0 = Some g0"
| "evidence_from Renewable g0 = Some g0"
| "evidence_from Energy g0 = None"
| "evidence_from GHG g0 = None"

text \<open>\<^verbatim>\<open>float(m.group(2).replace(',', ''))\<close> on group 2 of a match.\<close>

definition parse_number :: "string \<Rightarrow> rat option" where
  "parse_number g2 = py_float (replace '','' '''' g2)"

text \<open>
  On this page, in this state, some field is searched, its pattern matches, and the
  conversion of group 2 raises.
\<close>

definition float_raises :: "scan_state \<Rightarrow> string \<Rightarrow> bool" where
  "float_raises st text =
     list_ex (\<lambda>fld. value_of fld st = default_of fld \<and>
                (case field_search fld text of
                   None \<Rightarrow> False
                 | Some (g0, g2) \<Rightarrow> parse_number g2 = None))
       [CSR, Renewable, Energy, GHG]"

text \<open>The text of a page, and the concatenated text of the pages one pass visits.\<close>

fun page_text :: "page \<Rightarrow> string" where
  "page_text (Text t) = t"
| "page_text NoText = []"
| "page_text Broken = []"

definition scanned_text :: "page list \<Rightarrow> string" where
  "scanned_text pages = concat (map page_text (take 10 pages))"

text \<open>
  The policy test in the words of the specification: the name occurs at a position
  \<open>i\<close> of the text and the token occurs at a position \<open>j\<close> behind that occurrence,
  both ignoring case, with any characters in between.
\<close>

definition occurs_at :: "string \<Rightarrow> string \<Rightarrow> nat \<Rightarrow> bool" where
  "occurs_at lit text i =
     (i + length lit \<le> length text \<and>
      map lower (take (length lit) (drop i text)) = map lower lit)"

definition followed_by_yes :: "string \<Rightarrow> string \<Rightarrow> bool" where
  "followed_by_yes p text =
     (\<exists>i \<in> {0 .. length text}. \<exists>j \<in> {0 .. length text}.
        occurs_at p text i \<and> i + length p \<le> j \<and> occurs_at ''Yes'' text j)"


text \<open>
  The fallback name in the words of the specification: the file extension removed,
  underscores replaced by spaces, title case.
\<close>

definition strip_extension :: "string \<Rightarrow> string" where
  "strip_extension filename =
     (if endswith filename ''.pdf'' then take (length filename - 4) filename else filename)"

definition spec_fallback_name :: "string \<Rightarrow> string" where
  "spec_fallback_name filename = title (replace ''_'' '' '' (strip_extension filename))"

text \<open>What one directory entry adds to the result.\<close>

definition rows_of :: "string \<times> pdf \<Rightarrow> document_record list" where
  "rows_of f =
     (if endswith (fst f) ''.pdf''
      then (case process_file f of Inl e \<Rightarrow> [] | Inr row \<Rightarrow> [row])
      else [])"

text \<open>
  What one page does to one field: a field still at its initial value takes the number
  and the evidence of the page's match, any other field is left alone.
\<close>

definition field_effect :: "field \<Rightarrow> string \<Rightarrow> scan_state \<Rightarrow> scan_state \<Rightarrow> bool" where
  "field_effect fld text st st' =
     (if value_of fld st = default_of fld
      then (case field_search fld text of
              None \<Rightarrow> value_of fld st' = value_of fld st \<and> evidence_of fld st' = evidence_of fld st
            | Some (g0, g2) \<Rightarrow>
                parse_number g2 = Some (value_of fld st') \<and>
                evidence_of fld st' = evidence_from fld g0)
      else value_of fld st' = value_of fld st \<and> evidence_of fld st' = evidence_of fld st)"

text \<open>
  When a field's pattern matches, in words: somewhere in the text stands one of the
  field's two phrases, in any case, then characters other than a line break, then a
  digit or a comma.
\<close>

definition label_gap_number :: "field \<Rightarrow> string \<Rightarrow> bool" where
  "label_gap_number fld text =
     (\<exists>pre lab gap n rest.
        text = pre @ lab @ gap @ n # rest \<and>
        (map lower lab = map lower (fst (pattern_of fld)) \<or>
         map lower lab = map lower (snd (pattern_of fld))) \<and>
        newline \<notin> set gap \<and> num_char n)"

text \<open>
  A page that gives a field no value other than its initial one: the field's pattern
  does not match the page, or it matches with a number equal to the initial value.
\<close>

definition default_valued :: "field \<Rightarrow> page \<Rightarrow> bool" where
  "default_valued fld pg =
     (case field_search fld (page_text pg) of
        None \<Rightarrow> True
      | Some (g0, g2) \<Rightarrow> parse_number g2 = Some (default_of fld))"

section \<open>Proofs\<close>

subsection \<open>Scores and rounding\<close>




subsection \<open>The page loop\<close>

lemma csr_step_frame:
  "csr_step st t = Inr st' \<Longrightarrow>
     full_text st' = full_text st \<and> renewable_energy st' = renewable_energy st \<and>
     total_energy st' = total_energy st \<and> ghg_emissions st' = ghg_emissions st \<and>
     renew_snippet st' = renew_snippet st"
  by (auto simp: csr_step_def split: if_splits option.splits prod.splits)

lemma csr_step_own: "csr_step st t = Inr st' \<Longrightarrow> field_effect CSR t st st'"
  by (auto simp: csr_step_def field_effect_def field_search_def parse_number_def
           split: if_splits option.splits prod.splits)

lemma renew_step_frame:
  "renew_step st t = Inr st' \<Longrightarrow>
     full_text st' = full_text st \<and> csr_spend st' = csr_spend st \<and>
     total_energy st' = total_energy st \<and> ghg_emissions st' = ghg_emissions st \<and>
     csr_snippet st' = csr_snippet st"
  by (auto simp: renew_step_def split: if_splits option.splits prod.splits)

lemma renew_step_own: "renew_step st t = Inr st' \<Longrightarrow> field_effect Renewable t st st'"
  by (auto simp: renew_step_def field_effect_def field_search_def parse_number_def
           split: if_splits option.splits prod.splits)

lemma energy_step_frame:
  "energy_step st t = Inr st' \<Longrightarrow>
     full_text st' = full_text st \<and> csr_spend st' = csr_spend st \<and>
     renewable_energy st' = renewable_energy st \<and> ghg_emissions st' = ghg_emissions st \<and>
     csr_snippet st' = csr_snippet st \<and> renew_snippet st' = renew_snippet st"
  by (auto simp: energy_step_def split: if_splits option.splits prod.splits)

lemma energy_step_own: "energy_step st t = Inr st' \<Longrightarrow> field_effect Energy t st st'"
  by (auto simp: energy_step_def field_effect_def field_search_def parse_number_def
           split: if_splits option.splits prod.splits)

lemma ghg_step_frame:
  "ghg_step st t = Inr st' \<Longrightarrow>
     full_text st' = full_text st \<and> csr_spend st' = csr_spend st \<and>
     renewable_energy st' = renewable_energy st \<and> total_energy st' = total_energy st \<and>
     csr_snippet st' = csr_snippet st \<and> renew_snippet st' = renew_snippet st"
  by (auto simp: ghg_step_def split: if_splits option.splits prod.splits)

lemma ghg_step_own: "ghg_step st t = Inr st' \<Longrightarrow> field_effect GHG t st st'"
  by (auto simp: ghg_step_def field_effect_def field_search_def parse_number_def
           split: if_splits option.splits prod.splits)

lemma page_step_Text_iff:
  "page_step st (Text t) = Inr st' \<longleftrightarrow>
     (\<exists>st1 st2 st3.
        csr_step (st\<lparr>full_text := full_text st @ t\<rparr>) t = Inr st1 \<and>
        renew_step st1 t = Inr st2 \<and> energy_step st2 t = Inr st3 \<and>
        ghg_step st3 t = Inr st')"
  by (simp add: page_step_def split: sum.splits)

lemma page_step_Inr_Text:
  "page_step st pg = Inr st' \<Longrightarrow> \<exists>t. pg = Text t"
  by (cases pg) (simp_all add: page_step_def)

lemma page_step_full_text:
  assumes "page_step st (Text t) = Inr st'"
  shows "full_text st' = full_text st @ t"
proof -
  from assms obtain st1 st2 st3 where
    s: "csr_step (st\<lparr>full_text := full_text st @ t\<rparr>) t = Inr st1"
       "renew_step st1 t = Inr st2" "energy_step st2 t = Inr st3" "ghg_step st3 t = Inr st'"
    unfolding page_step_Text_iff by blast
  show ?thesis
    using csr_step_frame[OF s(1)] renew_step_frame[OF s(2)] energy_step_frame[OF s(3)]
      ghg_step_frame[OF s(4)] by simp
qed

lemma page_step_effect:
  assumes "page_step st (Text t) = Inr st'"
  shows "field_effect fld t st st'"
proof -
  from assms obtain st1 st2 st3 where
    s: "csr_step (st\<lparr>full_text := full_text st @ t\<rparr>) t = Inr st1"
       "renew_step st1 t = Inr st2" "energy_step st2 t = Inr st3" "ghg_step st3 t = Inr st'"
    unfolding page_step_Text_iff by blast
  note fr = csr_step_frame[OF s(1)] renew_step_frame[OF s(2)] energy_step_frame[OF s(3)]
      ghg_step_frame[OF s(4)]
  show ?thesis
  proof (cases fld)
    case CSR
    with csr_step_own[OF s(1)] fr show ?thesis
      by (auto simp: field_effect_def split: option.splits)
  next
    case Renewable
    with renew_step_own[OF s(2)] fr show ?thesis
      by (auto simp: field_effect_def split: option.splits)
  next
    case Energy
    with energy_step_own[OF s(3)] fr show ?thesis
      by (auto simp: field_effect_def split: option.splits)
  next
    case GHG
    with ghg_step_own[OF s(4)] fr show ?thesis
      by (auto simp: field_effect_def split: option.splits)
  qed
qed

lemma csr_step_Inl: "csr_step st t = Inl e \<Longrightarrow> e = ValueError"
  by (auto simp: csr_step_def split: if_splits option.splits prod.splits)

lemma renew_step_Inl: "renew_step st t = Inl e \<Longrightarrow> e = ValueError"
  by (auto simp: renew_step_def split: if_splits option.splits prod.splits)

lemma energy_step_Inl: "energy_step st t = Inl e \<Longrightarrow> e = ValueError"
  by (auto simp: energy_step_def split: if_splits option.splits prod.splits)

lemma ghg_step_Inl: "ghg_step st t = Inl e \<Longrightarrow> e = ValueError"
  by (auto simp: ghg_step_def split: if_splits option.splits prod.splits)

lemma page_step_Text_Inl: "page_step st (Text t) = Inl e \<Longrightarrow> e = ValueError"
  by (auto simp: page_step_def split: sum.splits
           dest: csr_step_Inl renew_step_Inl energy_step_Inl ghg_step_Inl)

lemma page_step_raises:
  assumes "float_raises st t"
  shows "page_step st (Text t) = Inl ValueError"
proof (cases "page_step st (Text t)")
  case (Inl e)
  then show ?thesis using page_step_Text_Inl by simp
next
  case (Inr st')
  from assms obtain fld where v: "value_of fld st = default_of fld"
    and c: "case field_search fld t of None \<Rightarrow> False | Some (g0, g2) \<Rightarrow> parse_number g2 = None"
    unfolding float_raises_def list_ex_iff by blast
  from c obtain g0 g2 where "field_search fld t = Some (g0, g2)" "parse_number g2 = None"
    by (cases "field_search fld t") auto
  with v have f: "value_of fld st = default_of fld" "field_search fld t = Some (g0, g2)"
       "parse_number g2 = None" by simp_all
  from page_step_effect[OF Inr, of fld] f have False
    by (simp add: field_effect_def)
  then show ?thesis ..
qed

lemma page_step_skip:
  assumes "page_step st pg = Inr st'" and "value_of fld st \<noteq> default_of fld"
  shows "value_of fld st' = value_of fld st \<and> evidence_of fld st' = evidence_of fld st"
proof -
  from assms(1) obtain t where "pg = Text t" using page_step_Inr_Text by blast
  with assms(1) have "field_effect fld t st st'" using page_step_effect by simp
  with assms(2) show ?thesis by (simp add: field_effect_def)
qed

lemma page_step_nomatch:
  assumes "page_step st pg = Inr st'" and "field_search fld (page_text pg) = None"
  shows "value_of fld st' = value_of fld st \<and> evidence_of fld st' = evidence_of fld st"
proof -
  from assms(1) obtain t where t: "pg = Text t" using page_step_Inr_Text by blast
  with assms(1) have "field_effect fld t st st'" using page_step_effect by simp
  with assms(2) t show ?thesis by (simp add: field_effect_def split: if_splits)
qed

lemma page_step_match:
  assumes "page_step st (Text t) = Inr st'" and "value_of fld st = default_of fld"
    and "field_search fld t = Some (g0, g2)"
  shows "parse_number g2 = Some (value_of fld st') \<and> evidence_of fld st' = evidence_from fld g0"
  using page_step_effect[OF assms(1), of fld] assms(2,3) by (simp add: field_effect_def)

lemma scan_pages_append:
  "scan_pages st (ps @ qs) =
     (case scan_pages st ps of Inl e \<Rightarrow> Inl e | Inr st' \<Rightarrow> scan_pages st' qs)"
  by (induction ps arbitrary: st) (auto split: sum.splits)

lemma scan_pages_skip:
  "scan_pages st ps = Inr st' \<Longrightarrow> value_of fld st \<noteq> default_of fld \<Longrightarrow>
   value_of fld st' = value_of fld st \<and> evidence_of fld st' = evidence_of fld st"
proof (induction ps arbitrary: st)
  case Nil
  then show ?case by simp
next
  case (Cons pg ps)
  from Cons.prems(1) obtain st1 where
    s: "page_step st pg = Inr st1" "scan_pages st1 ps = Inr st'"
    by (auto split: sum.splits)
  from page_step_skip[OF s(1) Cons.prems(2)] have
    k: "value_of fld st1 = value_of fld st" "evidence_of fld st1 = evidence_of fld st"
    by simp_all
  with Cons.prems(2) have "value_of fld st1 \<noteq> default_of fld" by simp
  from Cons.IH[OF s(2) this] k show ?case by simp
qed

lemma scan_pages_nomatch:
  "scan_pages st ps = Inr st' \<Longrightarrow> \<forall>pg \<in> set ps. field_search fld (page_text pg) = None \<Longrightarrow>
   value_of fld st' = value_of fld st \<and> evidence_of fld st' = evidence_of fld st"
proof (induction ps arbitrary: st)
  case Nil
  then show ?case by simp
next
  case (Cons pg ps)
  from Cons.prems(1) obtain st1 where
    s: "page_step st pg = Inr st1" "scan_pages st1 ps = Inr st'"
    by (auto split: sum.splits)
  from Cons.prems(2) have n: "field_search fld (page_text pg) = None"
    and rest: "\<forall>pg \<in> set ps. field_search fld (page_text pg) = None" by simp_all
  from page_step_nomatch[OF s(1) n] Cons.IH[OF s(2) rest] show ?case by simp
qed

lemma scan_pages_texts:
  "scan_pages st ps = Inr st' \<Longrightarrow>
   (\<forall>pg \<in> set ps. \<exists>t. pg = Text t) \<and> full_text st' = full_text st @ concat (map page_text ps)"
proof (induction ps arbitrary: st)
  case Nil
  then show ?case by simp
next
  case (Cons pg ps)
  from Cons.prems obtain st1 where
    s: "page_step st pg = Inr st1" "scan_pages st1 ps = Inr st'"
    by (auto split: sum.splits)
  from s(1) obtain t where t: "pg = Text t" using page_step_Inr_Text by blast
  from s(1) t have "full_text st1 = full_text st @ t" using page_step_full_text by simp
  with Cons.IH[OF s(2)] t show ?case by simp
qed

lemma scan_pages_NoText:
  "NoText \<in> set ps \<Longrightarrow> \<exists>e. scan_pages st ps = Inl e"
proof (cases "scan_pages st ps")
  case (Inl e)
  then show ?thesis by blast
next
  case (Inr st')
  assume "NoText \<in> set ps"
  with scan_pages_texts[OF Inr] show ?thesis by auto
qed

subsection \<open>One file, and the batch\<close>

lemma process_file_InrD:
  assumes "process_file f = Inr r"
  obtains pages st where "snd f = Pdf pages"
    and "scan_pages init_state (take 10 pages) = Inr st"
    and "Company r = company_name (fst f)"
    and "Policies r = count_policies (full_text st)"
    and "(Talk_Score r, Walk_Score r, Risk_Score r) =
           (case scoring_logic (Policies r) (csr_spend st) (renewable_energy st) (total_energy st)
            of (t, w, k) \<Rightarrow> (py_round1 t, py_round1 w, py_round1 k))"
    and "\<And>fld. stored_value fld r = value_of fld st"
    and "\<And>fld. stored_evidence fld r = evidence_of fld st"
proof -
  from assms obtain pages where p: "snd f = Pdf pages"
    by (cases "snd f") (auto simp: process_file_def)
  with assms obtain st where s: "scan_pages init_state (take 10 pages) = Inr st"
    by (cases "scan_pages init_state (take 10 pages)") (auto simp: process_file_def)
  obtain t w k where sc:
    "scoring_logic (count_policies (full_text st)) (csr_spend st) (renewable_energy st)
       (total_energy st) = (t, w, k)"
    by (metis prod_cases3)
  from assms p s sc have r: "r = \<lparr>Company = company_name (fst f),
        Risk_Score = py_round1 k, Talk_Score = py_round1 t, Walk_Score = py_round1 w,
        CSR_Spend_Cr = csr_spend st, Renewable_Energy = renewable_energy st,
        Total_Energy = total_energy st, GHG_Scope_1 = ghg_emissions st,
        Policies = count_policies (full_text st), CSR_Evidence = csr_snippet st,
        Renewable_Evidence = renew_snippet st\<rparr>"
    by (simp add: process_file_def Let_def)
  have v: "stored_value fld r = value_of fld st" for fld
    by (cases fld) (simp_all add: r)
  have e: "stored_evidence fld r = evidence_of fld st" for fld
    by (cases fld) (simp_all add: r)
  show thesis
    by (rule that[OF p s _ _ _ v e]) (simp_all add: r sc)
qed

lemma process_file_scan_Inl:
  "scan_pages init_state (take 10 pages) = Inl e \<Longrightarrow> process_file (name, Pdf pages) = Inl e"
  by (simp add: process_file_def)

lemma foldl_file_step:
  "foldl file_step data fs = data @ concat (map (\<lambda>f. case process_file f of Inl e \<Rightarrow> [] | Inr row \<Rightarrow> [row]) fs)"
  by (induction fs arbitrary: data) (auto simp: file_step_def split: sum.splits)

lemma process_pdfs_rows:
  "process_pdfs (Some listing) = concat (map rows_of listing)"
proof -
  have "concat (map (\<lambda>f. case process_file f of Inl e \<Rightarrow> [] | Inr row \<Rightarrow> [row])
          (filter (\<lambda>f. endswith (fst f) ''.pdf'') fs)) = concat (map rows_of fs)" for fs
    by (induction fs) (auto simp: rows_of_def)
  then show ?thesis by (simp add: process_pdfs_def foldl_file_step)
qed

lemma rows_of_Inl: "process_file f = Inl e \<Longrightarrow> rows_of f = []"
  by (simp add: rows_of_def)

lemma process_pdfs_drop:
  "rows_of f = [] \<Longrightarrow> process_pdfs (Some (fs @ f # gs)) = process_pdfs (Some (fs @ gs))"
  by (simp add: process_pdfs_rows)

subsection \<open>Extracted numbers are not negative\<close>









lemma foldl_count_policies:
  "foldl (\<lambda>n p. if P p then n + 1 else n) (k::int) ps = k + int (length (filter P ps))"
  by (induction ps arbitrary: k) auto

lemma count_policies_filter:
  "count_policies text = int (length (filter (\<lambda>p. policy_search p text) policies))"
  by (simp add: count_policies_def foldl_count_policies)

lemma count_policies_range: "0 \<le> count_policies text \<and> count_policies text \<le> 5"
proof -
  have "length (filter (\<lambda>p. policy_search p text) policies) \<le> length policies"
    by (rule length_filter_le)
  also have "length policies = 5" by (simp add: policies_def)
  finally show ?thesis by (simp add: count_policies_filter)
qed

subsection \<open>A page without text\<close>

lemma scan_pages_stops_at_NoText:
  "scan_pages st ps = Inr st' \<Longrightarrow> scan_pages st (ps @ NoText # qs) = Inl TypeError"
  by (simp add: scan_pages_append page_step_def)

subsection \<open>Scores of a row\<close>




lemma process_file_policies_range:
  assumes "process_file f = Inr r"
  shows "0 \<le> Policies r \<and> Policies r \<le> 5"
proof -
  from assms obtain st :: scan_state where "Policies r = count_policies (full_text st)"
    by (rule process_file_InrD)
  with count_policies_range show ?thesis by simp
qed

subsection \<open>The policy search\<close>

lemma ci_prefix_iff:
  "ci_prefix p s \<longleftrightarrow> length p \<le> length s \<and> map lower (take (length p) s) = map lower p"
  by (induction p s rule: ci_prefix.induct) auto

lemma ci_prefix_drop_occurs:
  "k \<le> length s \<Longrightarrow> ci_prefix lit (drop k s) \<longleftrightarrow> occurs_at lit s k"
  by (auto simp: ci_prefix_iff occurs_at_def)

lemma lazy_any_literal_iff:
  "lazy_any_literal lit s \<longleftrightarrow> (\<exists>k \<le> length s. ci_prefix lit (drop k s))"
proof (induction s)
  case Nil
  then show ?case by simp
next
  case (Cons c cs)
  have "(\<exists>k \<le> length (c # cs). ci_prefix lit (drop k (c # cs))) \<longleftrightarrow>
        ci_prefix lit (c # cs) \<or> (\<exists>k \<le> length cs. ci_prefix lit (drop k cs))"
  proof
    assume "\<exists>k \<le> length (c # cs). ci_prefix lit (drop k (c # cs))"
    then obtain k where k: "k \<le> length (c # cs)" "ci_prefix lit (drop k (c # cs))" by blast
    show "ci_prefix lit (c # cs) \<or> (\<exists>k \<le> length cs. ci_prefix lit (drop k cs))"
    proof (cases k)
      case 0
      with k show ?thesis by simp
    next
      case (Suc k')
      with k have "k' \<le> length cs" "ci_prefix lit (drop k' cs)" by simp_all
      then show ?thesis by blast
    qed
  next
    assume "ci_prefix lit (c # cs) \<or> (\<exists>k \<le> length cs. ci_prefix lit (drop k cs))"
    then show "\<exists>k \<le> length (c # cs). ci_prefix lit (drop k (c # cs))"
    proof
      assume "ci_prefix lit (c # cs)"
      then have "0 \<le> length (c # cs) \<and> ci_prefix lit (drop 0 (c # cs))" by simp
      then show ?thesis by blast
    next
      assume "\<exists>k \<le> length cs. ci_prefix lit (drop k cs)"
      then obtain k where "k \<le> length cs" "ci_prefix lit (drop k cs)" by blast
      then have "Suc k \<le> length (c # cs) \<and> ci_prefix lit (drop (Suc k) (c # cs))" by simp
      then show ?thesis by blast
    qed
  qed
  with Cons show ?case by simp
qed

lemma policy_search_iff:
  "policy_search p s \<longleftrightarrow>
     (\<exists>i \<le> length s. ci_prefix p (drop i s) \<and> lazy_any_literal ''Yes'' (drop (length p) (drop i s)))"
proof (induction s)
  case Nil
  then show ?case by simp
next
  case (Cons c cs)
  let ?Q = "\<lambda>t. ci_prefix p t \<and> lazy_any_literal ''Yes'' (drop (length p) t)"
  have "(\<exists>i \<le> length (c # cs). ?Q (drop i (c # cs))) \<longleftrightarrow>
        ?Q (c # cs) \<or> (\<exists>i \<le> length cs. ?Q (drop i cs))"
  proof
    assume "\<exists>i \<le> length (c # cs). ?Q (drop i (c # cs))"
    then obtain i where i: "i \<le> length (c # cs)" "?Q (drop i (c # cs))" by blast
    show "?Q (c # cs) \<or> (\<exists>i \<le> length cs. ?Q (drop i cs))"
    proof (cases i)
      case 0
      with i show ?thesis by simp
    next
      case (Suc i')
      with i have "i' \<le> length cs" "?Q (drop i' cs)" by simp_all
      then show ?thesis by blast
    qed
  next
    assume "?Q (c # cs) \<or> (\<exists>i \<le> length cs. ?Q (drop i cs))"
    then show "\<exists>i \<le> length (c # cs). ?Q (drop i (c # cs))"
    proof
      assume "?Q (c # cs)"
      then have "0 \<le> length (c # cs) \<and> ?Q (drop 0 (c # cs))" by simp
      then show ?thesis by blast
    next
      assume "\<exists>i \<le> length cs. ?Q (drop i cs)"
      then obtain i where "i \<le> length cs" "?Q (drop i cs)" by blast
      then have "Suc i \<le> length (c # cs) \<and> ?Q (drop (Suc i) (c # cs))" by simp
      then show ?thesis by blast
    qed
  qed
  with Cons show ?case by simp
qed

lemma policy_search_followed_by_yes:
  "policy_search p s \<longleftrightarrow> followed_by_yes p s"
proof
  assume "policy_search p s"
  then obtain i where i: "i \<le> length s" "ci_prefix p (drop i s)"
    and y: "lazy_any_literal ''Yes'' (drop (length p) (drop i s))"
    unfolding policy_search_iff by blast
  from i have oi: "occurs_at p s i" by (simp add: ci_prefix_drop_occurs)
  then have le: "i + length p \<le> length s" by (simp add: occurs_at_def)
  from y obtain k where k: "k \<le> length (drop (length p) (drop i s))"
    "ci_prefix ''Yes'' (drop k (drop (length p) (drop i s)))"
    unfolding lazy_any_literal_iff by blast
  let ?j = "i + length p + k"
  from k le have j: "?j \<le> length s" by simp
  from k(2) have "ci_prefix ''Yes'' (drop ?j s)" by (simp add: add.commute add.left_commute)
  with j have "occurs_at ''Yes'' s ?j" by (simp add: ci_prefix_drop_occurs)
  with oi i(1) j show "followed_by_yes p s"
    unfolding followed_by_yes_def
    by (intro bexI[where x = i] bexI[where x = ?j]) auto
next
  assume "followed_by_yes p s"
  then obtain i j where ij: "i \<le> length s" "j \<le> length s" "occurs_at p s i"
    "i + length p \<le> j" "occurs_at ''Yes'' s j"
    unfolding followed_by_yes_def by auto
  from ij have a: "ci_prefix p (drop i s)" by (simp add: ci_prefix_drop_occurs)
  let ?k = "j - (i + length p)"
  from ij have "drop ?k (drop (length p) (drop i s)) = drop j s"
    by (simp add: add.commute)
  moreover from ij have "ci_prefix ''Yes'' (drop j s)" by (simp add: ci_prefix_drop_occurs)
  moreover from ij have "?k \<le> length (drop (length p) (drop i s))" by simp
  ultimately have "lazy_any_literal ''Yes'' (drop (length p) (drop i s))"
    unfolding lazy_any_literal_iff by metis
  with a ij(1) show "policy_search p s" unfolding policy_search_iff by blast
qed

lemma count_policies_card:
  "count_policies text = int (card {p \<in> set policies. followed_by_yes p text})"
proof -
  have d: "distinct policies" by (simp add: policies_def)
  have "{p \<in> set policies. followed_by_yes p text} =
        set (filter (\<lambda>p. policy_search p text) policies)"
    by (auto simp: policy_search_followed_by_yes)
  moreover have "card (set (filter (\<lambda>p. policy_search p text) policies)) =
        length (filter (\<lambda>p. policy_search p text) policies)"
    by (rule distinct_card) (simp add: d)
  ultimately show ?thesis by (simp add: count_policies_filter)
qed

lemma process_file_full_text:
  assumes "process_file (name, Pdf pages) = Inr r"
  shows "(\<forall>pg \<in> set (take 10 pages). \<exists>t. pg = Text t) \<and>
         Policies r = count_policies (scanned_text pages)"
proof -
  from assms obtain pages' st where
    p: "snd (name, Pdf pages) = Pdf pages'"
    and s: "scan_pages init_state (take 10 pages') = Inr st"
    and c: "Policies r = count_policies (full_text st)"
    by (rule process_file_InrD) blast
  from p have [simp]: "pages' = pages" by simp
  from scan_pages_texts[OF s] have
    "\<forall>pg \<in> set (take 10 pages). \<exists>t. pg = Text t" and
    "full_text st = scanned_text pages"
    by (simp_all add: scanned_text_def init_state_def)
  with c show ?thesis by simp
qed

subsection \<open>A conversion that raises\<close>

lemma scan_pages_raises:
  assumes "scan_pages st0 ps = Inr st" and "float_raises st text"
  shows "scan_pages st0 (ps @ Text text # qs) = Inl ValueError"
  using assms by (simp add: scan_pages_append page_step_raises)

subsection \<open>The field patterns stay on one line\<close>

lemma newline_not_num_char: "\<not> num_char newline"
  by (simp add: num_char_def is_digit_def newline_def)

lemma newline_not_digit: "\<not> is_digit newline"
  by (simp add: is_digit_def newline_def)

lemma lower_newline: "lower newline = newline"
  by (simp add: lower_def is_upper_def newline_def)

lemma number_group_no_newline: "newline \<notin> set (number_group s)"
proof -
  have a: "newline \<notin> set (takeWhile num_char s)"
    using newline_not_num_char by (auto dest: set_takeWhileD)
  have b: "newline \<notin> set (takeWhile is_digit t)" for t
    using newline_not_digit by (auto dest: set_takeWhileD)
  have c: "CHR ''.'' \<noteq> newline" by (simp add: newline_def)
  show ?thesis
    using a b c by (auto simp: number_group_def Let_def split: list.splits)
qed

lemma number_group_prefix: "\<exists>post. s = number_group s @ post"
proof (cases "dropWhile num_char s")
  case Nil
  then have "number_group s = takeWhile num_char s"
    by (simp only: number_group_def Let_def list.case)
  moreover have "s = takeWhile num_char s @ dropWhile num_char s" by simp
  ultimately have "s = number_group s @ []" using Nil by simp
  then show ?thesis by blast
next
  case (Cons d r)
  have s: "s = takeWhile num_char s @ d # r" using Cons by (metis takeWhile_dropWhile_id)
  show ?thesis
  proof (cases "d = CHR ''.''")
    case True
    with Cons have "number_group s = takeWhile num_char s @ d # takeWhile is_digit r"
      by (simp only: number_group_def Let_def list.case if_True simp_thms)
    then have "number_group s @ dropWhile is_digit r = takeWhile num_char s @ d # r" by simp
    with s have "s = number_group s @ dropWhile is_digit r" by simp
    then show ?thesis by blast
  next
    case False
    with Cons have "number_group s = takeWhile num_char s"
      by (simp only: number_group_def Let_def list.case if_False simp_thms)
    with s have "s = number_group s @ d # r" by simp
    then show ?thesis by blast
  qed
qed

lemma lazy_dot_number_SomeD:
  "lazy_dot_number s = Some (gap, num) \<Longrightarrow>
   \<exists>n rest. s = gap @ n # rest \<and> num_char n \<and> newline \<notin> set gap \<and>
            num = number_group (n # rest)"
proof (induction s arbitrary: gap)
  case Nil
  then show ?case by simp
next
  case (Cons c cs)
  show ?case
  proof (cases "num_char c")
    case True
    with Cons.prems show ?thesis by auto
  next
    case False
    with Cons.prems obtain gap' where
      g: "c \<noteq> newline" "lazy_dot_number cs = Some (gap', num)" "gap = c # gap'"
      by (auto split: if_splits option.splits)
    from Cons.IH[OF g(2)] g(1,3) show ?thesis by auto
  qed
qed

lemma lazy_dot_number_complete:
  "newline \<notin> set gap \<Longrightarrow> num_char n \<Longrightarrow> lazy_dot_number (gap @ n # rest) \<noteq> None"
  by (induction gap) (auto split: option.splits)

lemma ci_prefix_append:
  "map lower lab' = map lower lab \<Longrightarrow> ci_prefix lab (lab' @ s)"
proof -
  assume e: "map lower lab' = map lower lab"
  then have "length lab' = length lab" by (metis length_map)
  with e show ?thesis by (simp add: ci_prefix_iff)
qed

lemma match_label_complete:
  assumes "map lower lab' = map lower lab" and "newline \<notin> set gap" and "num_char n"
  shows "match_label lab (lab' @ gap @ n # rest) \<noteq> None"
proof -
  from assms(1) have l: "length lab' = length lab" by (metis length_map)
  from lazy_dot_number_complete[OF assms(2,3)] obtain g m where
    "lazy_dot_number (gap @ n # rest) = Some (g, m)" by fastforce
  with l ci_prefix_append[OF assms(1)] show ?thesis
    by (simp add: match_label_def)
qed

lemma match_label_SomeD:
  assumes "match_label lab s = Some (g0, g2)"
  shows "\<exists>lab' gap n rest. s = lab' @ gap @ n # rest \<and> map lower lab' = map lower lab \<and>
           newline \<notin> set gap \<and> num_char n \<and> g0 = lab' @ gap @ g2 \<and>
           g2 = number_group (n # rest)"
proof -
  from assms have cp: "ci_prefix lab s" by (auto simp: match_label_def split: if_splits)
  with assms obtain gap where
    l: "lazy_dot_number (drop (length lab) s) = Some (gap, g2)"
    and g0: "g0 = take (length lab) s @ gap @ g2"
    by (auto simp: match_label_def split: option.splits)
  from lazy_dot_number_SomeD[OF l] obtain n rest where
    d: "drop (length lab) s = gap @ n # rest" "num_char n" "newline \<notin> set gap"
       "g2 = number_group (n # rest)" by blast
  from cp have m: "map lower (take (length lab) s) = map lower lab"
    by (simp add: ci_prefix_iff)
  have "s = take (length lab) s @ drop (length lab) s" by simp
  with d(1) have "s = take (length lab) s @ gap @ n # rest" by simp
  with m d g0 show ?thesis by blast
qed

lemma match_here_complete:
  assumes "map lower lab' = map lower A \<or> map lower lab' = map lower B"
    and "newline \<notin> set gap" and "num_char n"
  shows "match_here A B (lab' @ gap @ n # rest) \<noteq> None"
  using assms match_label_complete[of lab' A gap n rest] match_label_complete[of lab' B gap n rest]
  by (auto simp: match_here_def split: option.splits)

lemma match_here_SomeD:
  assumes "match_here A B s = Some (g0, g2)"
  shows "\<exists>lab' gap n rest. s = lab' @ gap @ n # rest \<and>
           (map lower lab' = map lower A \<or> map lower lab' = map lower B) \<and>
           newline \<notin> set gap \<and> num_char n \<and> g0 = lab' @ gap @ g2 \<and>
           g2 = number_group (n # rest)"
proof -
  from assms have "match_label A s = Some (g0, g2) \<or> match_label B s = Some (g0, g2)"
    by (auto simp: match_here_def split: option.splits)
  then show ?thesis
  proof
    assume "match_label A s = Some (g0, g2)"
    from match_label_SomeD[OF this] show ?thesis by blast
  next
    assume "match_label B s = Some (g0, g2)"
    from match_label_SomeD[OF this] show ?thesis by blast
  qed
qed

lemma re_search_here: "match_here A B s \<noteq> None \<Longrightarrow> re_search A B s \<noteq> None"
  by (cases s) (auto split: option.splits)

lemma re_search_later: "re_search A B s \<noteq> None \<Longrightarrow> re_search A B (pre @ s) \<noteq> None"
  by (induction pre) (auto split: option.splits)

lemma re_search_SomeD:
  "re_search A B s = Some m \<Longrightarrow> \<exists>pre s'. s = pre @ s' \<and> match_here A B s' = Some m"
proof (induction s)
  case Nil
  then show ?case by simp
next
  case (Cons c cs)
  show ?case
  proof (cases "match_here A B (c # cs)")
    case (Some m')
    with Cons.prems have "match_here A B (c # cs) = Some m" by simp
    then have "c # cs = [] @ (c # cs) \<and> match_here A B (c # cs) = Some m" by simp
    then show ?thesis by blast
  next
    case None
    with Cons.prems have "re_search A B cs = Some m" by simp
    from Cons.IH[OF this] obtain pre s' where "cs = pre @ s'" "match_here A B s' = Some m"
      by blast
    then have "c # cs = (c # pre) @ s' \<and> match_here A B s' = Some m" by simp
    then show ?thesis by blast
  qed
qed

lemma pattern_no_newline:
  "newline \<notin> set (map lower (fst (pattern_of fld))) \<and>
   newline \<notin> set (map lower (snd (pattern_of fld)))"
  by (cases fld) (simp_all add: lower_def is_upper_def newline_def)

lemma ci_equal_no_newline:
  assumes "map lower lab' = map lower lab" and "newline \<notin> set (map lower lab)"
  shows "newline \<notin> set lab'"
proof
  assume "newline \<in> set lab'"
  then have "lower newline \<in> set (map lower lab')" by simp
  with assms lower_newline show False by simp
qed

lemma field_search_iff: "field_search fld text \<noteq> None \<longleftrightarrow> label_gap_number fld text"
proof
  assume "field_search fld text \<noteq> None"
  then obtain g0 g2 where
    "re_search (fst (pattern_of fld)) (snd (pattern_of fld)) text = Some (g0, g2)"
    by (auto simp: field_search_def)
  from re_search_SomeD[OF this] obtain pre s' where
    p: "text = pre @ s'"
    and m: "match_here (fst (pattern_of fld)) (snd (pattern_of fld)) s' = Some (g0, g2)"
    by blast
  from match_here_SomeD[OF m] p show "label_gap_number fld text"
    unfolding label_gap_number_def by blast
next
  assume "label_gap_number fld text"
  then obtain pre lab gap n rest where
    t: "text = pre @ lab @ gap @ n # rest"
    and l: "map lower lab = map lower (fst (pattern_of fld)) \<or>
            map lower lab = map lower (snd (pattern_of fld))"
    and g: "newline \<notin> set gap" "num_char n"
    unfolding label_gap_number_def by blast
  from match_here_complete[OF l g] have
    "match_here (fst (pattern_of fld)) (snd (pattern_of fld)) (lab @ gap @ n # rest) \<noteq> None" .
  then have "re_search (fst (pattern_of fld)) (snd (pattern_of fld)) (pre @ lab @ gap @ n # rest)
      \<noteq> None"
    by (intro re_search_later re_search_here)
  with t show "field_search fld text \<noteq> None" by (simp add: field_search_def)
qed

lemma field_search_one_line:
  assumes "field_search fld text = Some (g0, g2)"
  shows "newline \<notin> set g0 \<and> (\<exists>pre post. text = pre @ g0 @ post)"
proof -
  from assms have
    "re_search (fst (pattern_of fld)) (snd (pattern_of fld)) text = Some (g0, g2)"
    by (simp add: field_search_def)
  from re_search_SomeD[OF this] obtain pre s' where
    p: "text = pre @ s'"
    and m: "match_here (fst (pattern_of fld)) (snd (pattern_of fld)) s' = Some (g0, g2)"
    by blast
  from match_here_SomeD[OF m] obtain lab' gap n rest where
    d: "s' = lab' @ gap @ n # rest"
       "map lower lab' = map lower (fst (pattern_of fld)) \<or>
        map lower lab' = map lower (snd (pattern_of fld))"
       "newline \<notin> set gap" "g0 = lab' @ gap @ g2" "g2 = number_group (n # rest)"
    by blast
  from d(2) pattern_no_newline[of fld] have "newline \<notin> set lab'"
    using ci_equal_no_newline by blast
  with d(3,4,5) number_group_no_newline have nl: "newline \<notin> set g0" by simp
  have "\<exists>post. n # rest = number_group (n # rest) @ post"
    by (rule number_group_prefix)
  then obtain post where "n # rest = g2 @ post" using d(5) by blast
  with d(1,4) p have "text = pre @ g0 @ post" by simp
  with nl show ?thesis by blast
qed

subsection \<open>The first value other than the initial one\<close>

lemma page_step_stays_default:
  assumes "page_step st pg = Inr st'" and "value_of fld st = default_of fld"
    and "default_valued fld pg"
  shows "value_of fld st' = default_of fld"
proof -
  from assms(1) obtain t where t: "pg = Text t" using page_step_Inr_Text by blast
  with assms(1) have e: "field_effect fld t st st'" using page_step_effect by simp
  show ?thesis
  proof (cases "field_search fld t")
    case None
    with e assms(2) show ?thesis by (simp add: field_effect_def)
  next
    case (Some m)
    obtain g0 g2 where m: "m = (g0, g2)" by (cases m)
    with Some assms(3) t have "parse_number g2 = Some (default_of fld)"
      by (simp add: default_valued_def)
    moreover from e assms(2) Some m have "parse_number g2 = Some (value_of fld st')"
      by (simp add: field_effect_def)
    ultimately show ?thesis by simp
  qed
qed

lemma scan_pages_stays_default:
  "scan_pages st ps = Inr st' \<Longrightarrow> value_of fld st = default_of fld \<Longrightarrow>
   \<forall>pg \<in> set ps. default_valued fld pg \<Longrightarrow> value_of fld st' = default_of fld"
proof (induction ps arbitrary: st)
  case Nil
  then show ?case by simp
next
  case (Cons pg ps)
  from Cons.prems(1) obtain st1 where
    s: "page_step st pg = Inr st1" "scan_pages st1 ps = Inr st'"
    by (auto split: sum.splits)
  from Cons.prems(3) have d: "default_valued fld pg" and r: "\<forall>pg \<in> set ps. default_valued fld pg"
    by simp_all
  from Cons.IH[OF s(2) page_step_stays_default[OF s(1) Cons.prems(2) d] r] show ?case .
qed

lemma scan_pages_split:
  assumes "scan_pages st (ps @ pg # qs) = Inr st'"
  obtains st1 st2 where "scan_pages st ps = Inr st1" and "page_step st1 pg = Inr st2"
    and "scan_pages st2 qs = Inr st'"
  using assms by (auto simp: scan_pages_append split: sum.splits)

lemma init_state_default:
  "value_of fld init_state = default_of fld \<and>
   evidence_of fld init_state = evidence_from fld ''Not Found''"
  by (cases fld) (simp_all add: init_state_def)

lemma process_file_first_value:
  assumes pf: "process_file (name, Pdf pages) = Inr r"
    and tk: "take 10 pages = ps @ Text t # qs"
    and bf: "\<forall>pg \<in> set ps. default_valued fld pg"
    and fs: "field_search fld t = Some (g0, g2)"
    and pn: "parse_number g2 = Some v" and nd: "v \<noteq> default_of fld"
  shows "stored_value fld r = v \<and> stored_evidence fld r = evidence_from fld g0"
proof -
  from pf obtain pages' st where
    p: "snd (name, Pdf pages) = Pdf pages'"
    and s: "scan_pages init_state (take 10 pages') = Inr st"
    and v: "\<And>fld. stored_value fld r = value_of fld st"
    and e: "\<And>fld. stored_evidence fld r = evidence_of fld st"
    by (rule process_file_InrD) blast
  from p have "pages' = pages" by simp
  with s tk have "scan_pages init_state (ps @ Text t # qs) = Inr st" by simp
  then obtain st1 st2 where
    a: "scan_pages init_state ps = Inr st1" and b: "page_step st1 (Text t) = Inr st2"
    and c: "scan_pages st2 qs = Inr st"
    by (rule scan_pages_split)
  from init_state_default[of fld] have "value_of fld init_state = default_of fld" by simp
  from scan_pages_stays_default[OF a this bf] have d1: "value_of fld st1 = default_of fld" .
  from page_step_match[OF b d1 fs] pn have
    m: "value_of fld st2 = v" "evidence_of fld st2 = evidence_from fld g0" by simp_all
  with nd have "value_of fld st2 \<noteq> default_of fld" by simp
  from scan_pages_skip[OF c this] m v[of fld] e[of fld] show ?thesis by simp
qed

lemma process_file_no_match:
  assumes pf: "process_file (name, Pdf pages) = Inr r"
    and nm: "\<forall>pg \<in> set (take 10 pages). field_search fld (page_text pg) = None"
  shows "stored_value fld r = default_of fld \<and>
         stored_evidence fld r = evidence_from fld ''Not Found''"
proof -
  from pf obtain pages' st where
    p: "snd (name, Pdf pages) = Pdf pages'"
    and s: "scan_pages init_state (take 10 pages') = Inr st"
    and v: "\<And>fld. stored_value fld r = value_of fld st"
    and e: "\<And>fld. stored_evidence fld r = evidence_of fld st"
    by (rule process_file_InrD) blast
  from p have "pages' = pages" by simp
  with s have "scan_pages init_state (take 10 pages) = Inr st" by simp
  from scan_pages_nomatch[OF this nm] init_state_default[of fld] v[of fld] e[of fld]
  show ?thesis by simp
qed

subsection \<open>Company names\<close>

lemma company_name_table: "map_of name_map f = Some formal \<Longrightarrow> company_name f = formal"
  by (simp add: company_name_def)

lemma company_name_fallback:
  "map_of name_map f = None \<Longrightarrow>
   company_name f = title (replace ''_'' '' '' (replace ''.pdf'' '''' f))"
  by (simp add: company_name_def)

lemma company_name_examples:
  "company_name ''acc.pdf'' = ''ACC Limited'' \<and> company_name ''foo_bar.pdf'' = ''Foo Bar''"
  by code_simp

lemma length_pdf: "length ''.pdf'' = 4"
  by simp

lemma endswith_pdf:
  "endswith f ''.pdf'' \<longleftrightarrow> 4 \<le> length f \<and> drop (length f - 4) f = ''.pdf''"
  by (simp only: endswith_def length_pdf)

lemma replace_pdf_suffix_only:
  "endswith f ''.pdf'' \<Longrightarrow> \<forall>i. i + 4 < length f \<longrightarrow> take 4 (drop i f) \<noteq> ''.pdf'' \<Longrightarrow>
   replace ''.pdf'' '''' f = take (length f - 4) f"
proof (induction f)
  case Nil
  then show ?case by (simp add: endswith_pdf)
next
  case (Cons c cs)
  from Cons.prems(1) have len: "4 \<le> length (c # cs)"
    and suf: "drop (length (c # cs) - 4) (c # cs) = ''.pdf''"
    by (simp_all only: endswith_pdf)
  show ?case
  proof (cases "take 4 (c # cs) = ''.pdf''")
    case True
    have "\<not> 0 + 4 < length (c # cs)"
    proof
      assume "0 + 4 < length (c # cs)"
      with Cons.prems(2) have "take 4 (drop 0 (c # cs)) \<noteq> ''.pdf''" by blast
      with True show False by simp
    qed
    with len have l4: "length cs = 3" by simp
    then have "drop 3 cs = []" by simp
    with True l4 show ?thesis by simp
  next
    case False
    have l5: "4 \<le> length cs"
    proof (rule ccontr)
      assume "\<not> 4 \<le> length cs"
      with len have "length (c # cs) = 4" by simp
      with suf have "take 4 (c # cs) = ''.pdf''" by simp
      with False show False by simp
    qed
    then have s1: "Suc (length cs) - 4 = Suc (length cs - 4)" by simp
    with suf have "drop (length cs - 4) cs = ''.pdf''" by simp
    with l5 have e: "endswith cs ''.pdf''" by (simp only: endswith_pdf simp_thms)
    have n: "\<forall>i. i + 4 < length cs \<longrightarrow> take 4 (drop i cs) \<noteq> ''.pdf''"
    proof (intro allI impI)
      fix i assume "i + 4 < length cs"
      then have "Suc i + 4 < length (c # cs)" by simp
      with Cons.prems(2) have "take 4 (drop (Suc i) (c # cs)) \<noteq> ''.pdf''" by blast
      then show "take 4 (drop i cs) \<noteq> ''.pdf''" by simp
    qed
    from Cons.IH[OF e n] have ih: "replace ''.pdf'' '''' cs = take (length cs - 4) cs" .
    from False have r: "replace ''.pdf'' '''' (c # cs) = c # replace ''.pdf'' '''' cs"
      by (simp only: replace.simps length_pdf simp_thms if_False)
    from s1 have "take (length (c # cs) - 4) (c # cs) = c # take (length cs - 4) cs" by simp
    with r ih show ?thesis by (simp only:)
  qed
qed

lemma company_name_agrees_without_inner_pdf:
  assumes "map_of name_map f = None" and "endswith f ''.pdf''"
    and "\<forall>i. i + 4 < length f \<longrightarrow> take 4 (drop i f) \<noteq> ''.pdf''"
  shows "company_name f = spec_fallback_name f"
  using assms replace_pdf_suffix_only[OF assms(2,3)]
  by (simp add: company_name_fallback spec_fallback_name_def strip_extension_def)

section \<open>The properties C1 to C10\<close>

subsection \<open>C1: the scoring formula\<close>



subsection \<open>C2: which match a field keeps\<close>

text \<open>
  C2 as stated fails. The CSR pattern matches page one with the number 0; page two
  is searched all the same, and the row stores the value and the snippet of page two,
  not those of the first match in the document.
\<close>

theorem C2_counterexample:
  "field_search CSR ''CSR Expenditure 0'' = Some (''CSR Expenditure 0'', ''0'') \<and>
   process_file (''x.pdf'', Pdf [Text ''CSR Expenditure 0'', Text ''CSR Expenditure 25'']) =
     Inr \<lparr>Company = ''X'', Risk_Score = 0, Talk_Score = 0, Walk_Score = 5 / 2,
          CSR_Spend_Cr = 25, Renewable_Energy = 0, Total_Energy = 1, GHG_Scope_1 = 0,
          Policies = 0, CSR_Evidence = ''CSR Expenditure 25'',
          Renewable_Evidence = ''Not Found''\<rparr>"
  by code_simp

text \<open>
  C2, amended. For every field: once its variable holds a value other than the
  initial one, no later page changes the value or the evidence. So when every visited
  page before some page gives the field no value other than the initial one, and that
  page matches with a number different from the initial value, the row stores that
  number and, for the two fields with evidence, that match's text: the first match
  with a value other than the initial one wins, across the whole document. When no
  visited page matches, the row stores the initial value (0 for CSR spend, renewable
  energy and Scope 1, 1 for total energy) and the evidence \<^verbatim>\<open>Not Found\<close>.
\<close>

theorem C2_first_value_wins:
  "(scan_pages st qs = Inr st' \<longrightarrow> value_of fld st \<noteq> default_of fld \<longrightarrow>
      value_of fld st' = value_of fld st \<and> evidence_of fld st' = evidence_of fld st) \<and>
   (process_file (name, Pdf pages) = Inr r \<longrightarrow> take 10 pages = ps @ Text t # rest \<longrightarrow>
      (\<forall>pg \<in> set ps. default_valued fld pg) \<longrightarrow>
      field_search fld t = Some (g0, g2) \<longrightarrow> parse_number g2 = Some v \<longrightarrow>
      v \<noteq> default_of fld \<longrightarrow>
      stored_value fld r = v \<and> stored_evidence fld r = evidence_from fld g0) \<and>
   (process_file (name, Pdf pages) = Inr r \<longrightarrow>
      (\<forall>pg \<in> set (take 10 pages). field_search fld (page_text pg) = None) \<longrightarrow>
      stored_value fld r = default_of fld \<and>
      stored_evidence fld r = evidence_from fld ''Not Found'')"
  using scan_pages_skip process_file_first_value process_file_no_match by blast

text \<open>
  Three pages with CSR matches 0, 1,200 and 9: the row stores 1,200 and the
  snippet of page two; no page mentions Scope 1, which stays 0.
\<close>

theorem C2_witness:
  "process_file (''x.pdf'', Pdf [Text ''CSR Expenditure 0'', Text ''Community Spending: 1,200 (note 7)'', Text ''CSR Expenditure 9'']) =
     Inr \<lparr>Company = ''X'', Risk_Score = 0, Talk_Score = 0, Walk_Score = 50,
          CSR_Spend_Cr = 1200, Renewable_Energy = 0, Total_Energy = 1, GHG_Scope_1 = 0,
          Policies = 0, CSR_Evidence = ''Community Spending: 1,200'',
          Renewable_Evidence = ''Not Found''\<rparr> \<and>
   default_valued CSR (Text ''CSR Expenditure 0'') \<and>
   field_search CSR ''Community Spending: 1,200 (note 7)'' =
     Some (''Community Spending: 1,200'', ''1,200'') \<and>
   parse_number ''1,200'' = Some 1200 \<and> (1200::rat) \<noteq> default_of CSR \<and>
   field_search CSR ''CSR Expenditure 9'' = Some (''CSR Expenditure 9'', ''9'') \<and>
   field_search GHG ''CSR Expenditure 0'' = None \<and>
   field_search GHG ''Community Spending: 1,200 (note 7)'' = None \<and>
   field_search GHG ''CSR Expenditure 9'' = None \<and>
   scan_pages (init_state\<lparr>csr_spend := 1200, csr_snippet := ''Community Spending: 1,200''\<rparr>)
       [Text ''CSR Expenditure 9''] =
     Inr \<lparr>full_text = ''CSR Expenditure 9'', csr_spend = 1200, renewable_energy = 0,
          total_energy = 1, ghg_emissions = 0, csr_snippet = ''Community Spending: 1,200'',
          renew_snippet = ''Not Found''\<rparr>"
proof -
  let ?pages = "[Text ''CSR Expenditure 0'', Text ''Community Spending: 1,200 (note 7)'', Text ''CSR Expenditure 9'']"
  let ?r = "\<lparr>Company = ''X'', Risk_Score = 0, Talk_Score = 0, Walk_Score = 50,
          CSR_Spend_Cr = 1200, Renewable_Energy = 0, Total_Energy = 1, GHG_Scope_1 = 0,
          Policies = 0, CSR_Evidence = ''Community Spending: 1,200'',
          Renewable_Evidence = ''Not Found''\<rparr>"
  let ?st = "init_state\<lparr>csr_spend := 1200, csr_snippet := ''Community Spending: 1,200''\<rparr>"
  let ?st' = "\<lparr>full_text = ''CSR Expenditure 9'', csr_spend = 1200, renewable_energy = 0,
          total_energy = 1, ghg_emissions = 0, csr_snippet = ''Community Spending: 1,200'',
          renew_snippet = ''Not Found''\<rparr>"
  have a: "process_file (''x.pdf'', Pdf ?pages) = Inr ?r" by code_simp
  have b0: "default_valued CSR (Text ''CSR Expenditure 0'')" by code_simp
  then have b: "\<forall>pg \<in> set [Text ''CSR Expenditure 0'']. default_valued CSR pg" by simp
  have c: "field_search CSR ''Community Spending: 1,200 (note 7)'' =
     Some (''Community Spending: 1,200'', ''1,200'')" by code_simp
  have d: "parse_number ''1,200'' = Some 1200" by code_simp
  have e: "(1200::rat) \<noteq> default_of CSR" by simp
  have f: "field_search CSR ''CSR Expenditure 9'' = Some (''CSR Expenditure 9'', ''9'')"
    by code_simp
  have g0: "field_search GHG ''CSR Expenditure 0'' = None"
    "field_search GHG ''Community Spending: 1,200 (note 7)'' = None"
    "field_search GHG ''CSR Expenditure 9'' = None" by code_simp+
  then have g: "\<forall>pg \<in> set (take 10 ?pages). field_search GHG (page_text pg) = None" by simp
  have h: "scan_pages ?st [Text ''CSR Expenditure 9''] = Inr ?st'" by code_simp
  have t: "take 10 ?pages = [Text ''CSR Expenditure 0''] @
      Text ''Community Spending: 1,200 (note 7)'' # [Text ''CSR Expenditure 9'']" by simp
  have n: "value_of CSR ?st \<noteq> default_of CSR" by simp
  note thm1 = C2_first_value_wins[of ?st "[Text ''CSR Expenditure 9'']" ?st' CSR
      "''x.pdf''" ?pages ?r "[Text ''CSR Expenditure 0'']" "''Community Spending: 1,200 (note 7)''"
      "[Text ''CSR Expenditure 9'']" "''Community Spending: 1,200''" "''1,200''" 1200]
  note thm2 = C2_first_value_wins[of ?st "[Text ''CSR Expenditure 9'']" ?st' GHG
      "''x.pdf''" ?pages ?r "[]" "[]" "[]" "[]" "[]" 0]
  from thm1 thm2 a b c d e g t have
    "stored_value CSR ?r = 1200 \<and> stored_value GHG ?r = default_of GHG" by blast
  with a b0 c d e f g0 h show ?thesis by blast
qed

subsection \<open>C3: a field match and line breaks\<close>

text \<open>
  C3 as stated fails. With the phrase on one line and the number on the next the
  pattern does not match: without \<^verbatim>\<open>re.DOTALL\<close> the \<^verbatim>\<open>.\<close> of the pattern stops at a line
  break.
\<close>

theorem C3_counterexample:
  "field_search CSR ''CSR Expenditure\<newline>500'' = None"
  by code_simp

text \<open>
  C3, amended. For every field and every page text, the search finds a match exactly
  when, anywhere in the text, one of the field's two phrases (in any case) is followed,
  after characters other than a line break, by a digit or a comma. The search is not
  tied to the start or the end of a line, but a match never contains a line break: it
  is a piece of a single line of the page.
\<close>

theorem C3_match_within_one_line:
  "(field_search fld text \<noteq> None \<longleftrightarrow> label_gap_number fld text) \<and>
   (field_search fld text = Some (g0, g2) \<longrightarrow>
      newline \<notin> set g0 \<and> (\<exists>pre post. text = pre @ g0 @ post))"
  using field_search_iff field_search_one_line by blast

text \<open>
  A match in the middle of the second of three lines, and no match for the phrase
  and the number on two lines.
\<close>

theorem C3_witness:
  "field_search Energy ''In FY23\<newline>the total ENERGY consumption (TJ) was 1,250.5 per site\<newline>42'' =
     Some (''total ENERGY consumption (TJ) was 1,250.5'', ''1,250.5'') \<and>
   newline \<notin> set ''total ENERGY consumption (TJ) was 1,250.5'' \<and>
   label_gap_number Energy ''In FY23\<newline>the total ENERGY consumption (TJ) was 1,250.5 per site\<newline>42'' \<and>
   \<not> label_gap_number CSR ''CSR Expenditure\<newline>500''"
proof -
  have h: "field_search Energy ''In FY23\<newline>the total ENERGY consumption (TJ) was 1,250.5 per site\<newline>42'' =
     Some (''total ENERGY consumption (TJ) was 1,250.5'', ''1,250.5'')"
    by code_simp
  have n: "field_search CSR ''CSR Expenditure\<newline>500'' = None" by code_simp
  from C3_match_within_one_line[of Energy
      "''In FY23\<newline>the total ENERGY consumption (TJ) was 1,250.5 per site\<newline>42''"
      "''total ENERGY consumption (TJ) was 1,250.5''" "''1,250.5''"]
    C3_match_within_one_line[of CSR "''CSR Expenditure\<newline>500''" "[]" "[]"] h n
  show ?thesis by simp
qed

subsection \<open>C4: a matched number that does not convert\<close>

text \<open>
  C4 as stated fails. On the page \<^verbatim>\<open>CSR Expenditure, as reported\<close> the CSR pattern
  matches with the lone comma as group 2, \<^verbatim>\<open>float('')\<close> raises, and the document
  has no row at all, where C4 keeps the row with the field at its default.
\<close>

theorem C4_counterexample:
  "field_search CSR ''CSR Expenditure, as reported'' = Some (''CSR Expenditure,'', '','') \<and>
   parse_number '','' = None \<and>
   process_file (''x.pdf'', Pdf [Text ''CSR Expenditure, as reported'']) = Inl ValueError \<and>
   process_pdfs (Some [(''x.pdf'', Pdf [Text ''CSR Expenditure, as reported''])]) = []"
  by code_simp

text \<open>
  C4, amended. When the pages before are read without an exception and on the next
  page some field that is still searched matches with a group 2 that \<^verbatim>\<open>float\<close> refuses,
  the \<^verbatim>\<open>ValueError\<close> leaves the \<^verbatim>\<open>try\<close> body: the document adds no row, so no field of
  it is kept, the batch returns what it returns without that document, and nothing is
  raised to the caller.
\<close>

theorem C4_parse_failure_excludes_document:
  assumes "scan_pages init_state ps = Inr st" and "length ps < 10" and "float_raises st text"
  shows "process_file (name, Pdf (ps @ Text text # qs)) = Inl ValueError \<and>
         process_pdfs (Some (fs @ (name, Pdf (ps @ Text text # qs)) # gs)) =
           process_pdfs (Some (fs @ gs))"
proof -
  from assms(2) have "take 10 (ps @ Text text # qs) = ps @ Text text # take (10 - length ps - 1) qs"
    by (cases "10 - length ps") auto
  with scan_pages_raises[OF assms(1,3)] have
    "scan_pages init_state (take 10 (ps @ Text text # qs)) = Inl ValueError" by simp
  then have pf: "process_file (name, Pdf (ps @ Text text # qs)) = Inl ValueError"
    by (rule process_file_scan_Inl)
  then show ?thesis by (simp add: process_pdfs_drop rows_of_Inl)
qed

text \<open>
  A second page on which the Scope 1 pattern matches a lone comma.
\<close>

theorem C4_witness:
  "scan_pages init_state [Text ''Water Policy: yes''] =
     Inr \<lparr>full_text = ''Water Policy: yes'', csr_spend = 0, renewable_energy = 0,
          total_energy = 1, ghg_emissions = 0, csr_snippet = ''Not Found'',
          renew_snippet = ''Not Found''\<rparr> \<and>
   length [Text ''Water Policy: yes''] < 10 \<and>
   float_raises \<lparr>full_text = ''Water Policy: yes'', csr_spend = 0, renewable_energy = 0,
          total_energy = 1, ghg_emissions = 0, csr_snippet = ''Not Found'',
          renew_snippet = ''Not Found''\<rparr> ''Scope 1 emissions, see annex'' \<and>
   process_file (''x.pdf'', Pdf ([Text ''Water Policy: yes''] @ Text ''Scope 1 emissions, see annex'' # []))
     = Inl ValueError \<and>
   process_pdfs (Some ([] @ (''x.pdf'', Pdf ([Text ''Water Policy: yes''] @ Text ''Scope 1 emissions, see annex'' # [])) # []))
     = process_pdfs (Some ([] @ []))"
proof -
  have a: "scan_pages init_state [Text ''Water Policy: yes''] =
     Inr \<lparr>full_text = ''Water Policy: yes'', csr_spend = 0, renewable_energy = 0,
          total_energy = 1, ghg_emissions = 0, csr_snippet = ''Not Found'',
          renew_snippet = ''Not Found''\<rparr>"
    by code_simp
  have b: "length [Text ''Water Policy: yes''] < 10" by simp
  have c: "float_raises \<lparr>full_text = ''Water Policy: yes'', csr_spend = 0, renewable_energy = 0,
          total_energy = 1, ghg_emissions = 0, csr_snippet = ''Not Found'',
          renew_snippet = ''Not Found''\<rparr> ''Scope 1 emissions, see annex''"
    by code_simp
  from C4_parse_failure_excludes_document[OF a b c, of "''x.pdf''" "[]" "[]" "[]"] a b c
  show ?thesis by blast
qed

subsection \<open>C5: the policy count\<close>

text \<open>
  C5. The policy count of a row is the number of the five checklist policies whose
  name occurs in the concatenated text of the visited pages with an occurrence of
  \<^verbatim>\<open>Yes\<close> somewhere behind it, both ignoring case, whatever lies between (line breaks
  included). It counts policies, not occurrences, and lies between 0 and 5.
\<close>

theorem C5_policy_count:
  assumes "process_file (name, Pdf pages) = Inr r"
  shows "Policies r = int (card {p \<in> set policies. followed_by_yes p (scanned_text pages)}) \<and>
         0 \<le> Policies r \<and> Policies r \<le> 5"
  using process_file_full_text[OF assms] process_file_policies_range[OF assms]
  by (simp add: count_policies_card)

text \<open>
  The name twice on the first page, the first time with a line break before the
  \<^verbatim>\<open>YES\<close>; a second policy with nothing affirmative behind it: the count is 1.
\<close>

theorem C5_witness:
  "process_file (''x.pdf'', Pdf [Text ''Climate Change Policy\<newline>adopted: YES. Climate Change Policy yes'', Text ''Water Policy: No'']) =
     Inr \<lparr>Company = ''X'', Risk_Score = 20, Talk_Score = 20, Walk_Score = 0,
          CSR_Spend_Cr = 0, Renewable_Energy = 0, Total_Energy = 1, GHG_Scope_1 = 0,
          Policies = 1, CSR_Evidence = ''Not Found'', Renewable_Evidence = ''Not Found''\<rparr> \<and>
   int (card {p \<in> set policies. followed_by_yes p
     (scanned_text [Text ''Climate Change Policy\<newline>adopted: YES. Climate Change Policy yes'', Text ''Water Policy: No''])}) = 1"
proof -
  have h: "process_file (''x.pdf'', Pdf [Text ''Climate Change Policy\<newline>adopted: YES. Climate Change Policy yes'', Text ''Water Policy: No'']) =
     Inr \<lparr>Company = ''X'', Risk_Score = 20, Talk_Score = 20, Walk_Score = 0,
          CSR_Spend_Cr = 0, Renewable_Energy = 0, Total_Energy = 1, GHG_Scope_1 = 0,
          Policies = 1, CSR_Evidence = ''Not Found'', Renewable_Evidence = ''Not Found''\<rparr>"
    by code_simp
  from C5_policy_count[OF h] h show ?thesis by simp
qed

subsection \<open>C6: the range of the scores\<close>



subsection \<open>C7: a file that raises adds nothing\<close>

text \<open>
  C7. An exception anywhere in one file's pass, from opening the file to the last
  visited page, makes that file add no row: the batch returns exactly the rows it
  returns without that directory entry, in the same order. The result is a plain list
  of complete rows, so there is no partial row and no error for the caller.
\<close>

theorem C7_failed_file_contributes_nothing:
  "process_file f = Inl e \<Longrightarrow>
     process_pdfs (Some (fs @ f # gs)) = process_pdfs (Some (fs @ gs))"
  by (simp add: process_pdfs_drop rows_of_Inl)

text \<open>
  An unreadable file between two readable ones.
\<close>

theorem C7_witness:
  "process_file (''b.pdf'', Unreadable) = Inl OpenError \<and>
   process_pdfs (Some ([(''a.pdf'', Pdf [Text ''CSR Expenditure 250'', Text ''Water Policy: Yes''])]
       @ (''b.pdf'', Unreadable) # [(''c.pdf'', Pdf [])])) =
   process_pdfs (Some ([(''a.pdf'', Pdf [Text ''CSR Expenditure 250'', Text ''Water Policy: Yes''])]
       @ [(''c.pdf'', Pdf [])])) \<and>
   length (process_pdfs (Some ([(''a.pdf'', Pdf [Text ''CSR Expenditure 250'', Text ''Water Policy: Yes''])]
       @ [(''c.pdf'', Pdf [])]))) = 2"
proof -
  have h: "process_file (''b.pdf'', Unreadable) = Inl OpenError"
    by (simp add: process_file_def)
  have l: "length (process_pdfs (Some ([(''a.pdf'', Pdf [Text ''CSR Expenditure 250'', Text ''Water Policy: Yes''])]
       @ [(''c.pdf'', Pdf [])]))) = 2"
    by code_simp
  from C7_failed_file_contributes_nothing[OF h] h l show ?thesis by blast
qed

subsection \<open>C8: the company name\<close>

text \<open>
  C8. The code deletes every occurrence of \<^verbatim>\<open>.pdf\<close> from a file name that is not in
  the table, where the specification removes the extension: for \<^verbatim>\<open>annual.pdf.pdf\<close>
  the code gives \<^verbatim>\<open>Annual\<close> and the specification \<^verbatim>\<open>Annual.Pdf\<close>. On the table's keys,
  and on every name in which \<^verbatim>\<open>.pdf\<close> occurs at the end only, the two agree
  (\<open>company_name_table\<close>, \<open>company_name_agrees_without_inner_pdf\<close>).
\<close>

theorem C8_company_name_double_extension:
  "endswith ''annual.pdf.pdf'' ''.pdf'' \<and> map_of name_map ''annual.pdf.pdf'' = None \<and>
   company_name ''annual.pdf.pdf'' = ''Annual'' \<and>
   spec_fallback_name ''annual.pdf.pdf'' = ''Annual.Pdf''"
  by code_simp

subsection \<open>C9: a match with the initial value is not final\<close>

text \<open>
  C9. When a page's match for a field parses to the field's initial value, the
  variable still holds that value afterwards, although the evidence now holds the
  match; pages that give the field no other value leave it so; and the next page
  on which the pattern matches is searched and overwrites the value and, for the two
  fields with evidence, the snippet. Hence a row can have CSR spend 0, or renewable
  energy 0, with an evidence snippet other than \<^verbatim>\<open>Not Found\<close>.
\<close>

theorem C9_default_valued_match_is_searched_again:
  "(value_of fld st0 = default_of fld \<longrightarrow> page_step st0 (Text t1) = Inr st1 \<longrightarrow>
      field_search fld t1 = Some (h0, h2) \<longrightarrow> parse_number h2 = Some (default_of fld) \<longrightarrow>
      scan_pages st1 mid = Inr st2 \<longrightarrow> (\<forall>pg \<in> set mid. default_valued fld pg) \<longrightarrow>
      page_step st2 (Text t2) = Inr st3 \<longrightarrow> field_search fld t2 = Some (g0, g2) \<longrightarrow>
        value_of fld st1 = default_of fld \<and> evidence_of fld st1 = evidence_from fld h0 \<and>
        value_of fld st2 = default_of fld \<and>
        parse_number g2 = Some (value_of fld st3) \<and>
        evidence_of fld st3 = evidence_from fld g0) \<and>
   (\<exists>r. process_file (''x.pdf'', Pdf [Text ''CSR Expenditure 0'']) = Inr r \<and>
        CSR_Spend_Cr r = 0 \<and> CSR_Evidence r = ''CSR Expenditure 0'' \<and>
        CSR_Evidence r \<noteq> ''Not Found'') \<and>
   (\<exists>r. process_file (''x.pdf'', Pdf [Text ''Renewable Energy: 0.0'']) = Inr r \<and>
        Renewable_Energy r = 0 \<and> Renewable_Evidence r = ''Renewable Energy: 0.0'' \<and>
        Renewable_Evidence r \<noteq> ''Not Found'')"
proof (intro conjI impI)
  assume a: "value_of fld st0 = default_of fld" "page_step st0 (Text t1) = Inr st1"
    "field_search fld t1 = Some (h0, h2)" "parse_number h2 = Some (default_of fld)"
    "scan_pages st1 mid = Inr st2" "\<forall>pg \<in> set mid. default_valued fld pg"
    "page_step st2 (Text t2) = Inr st3" "field_search fld t2 = Some (g0, g2)"
  from page_step_match[OF a(2,1,3)] a(4) show
    v1: "value_of fld st1 = default_of fld" and "evidence_of fld st1 = evidence_from fld h0"
    by simp_all
  from scan_pages_stays_default[OF a(5) v1 a(6)] show v2: "value_of fld st2 = default_of fld" .
  from page_step_match[OF a(7) v2 a(8)] show "parse_number g2 = Some (value_of fld st3)"
    and "evidence_of fld st3 = evidence_from fld g0" by simp_all
next
  have "process_file (''x.pdf'', Pdf [Text ''CSR Expenditure 0'']) =
     Inr \<lparr>Company = ''X'', Risk_Score = 0, Talk_Score = 0, Walk_Score = 0,
          CSR_Spend_Cr = 0, Renewable_Energy = 0, Total_Energy = 1, GHG_Scope_1 = 0,
          Policies = 0, CSR_Evidence = ''CSR Expenditure 0'',
          Renewable_Evidence = ''Not Found''\<rparr>"
    by code_simp
  then show "\<exists>r. process_file (''x.pdf'', Pdf [Text ''CSR Expenditure 0'']) = Inr r \<and>
        CSR_Spend_Cr r = 0 \<and> CSR_Evidence r = ''CSR Expenditure 0'' \<and>
        CSR_Evidence r \<noteq> ''Not Found''"
    by simp
next
  have "process_file (''x.pdf'', Pdf [Text ''Renewable Energy: 0.0'']) =
     Inr \<lparr>Company = ''X'', Risk_Score = 0, Talk_Score = 0, Walk_Score = 0,
          CSR_Spend_Cr = 0, Renewable_Energy = 0, Total_Energy = 1, GHG_Scope_1 = 0,
          Policies = 0, CSR_Evidence = ''Not Found'',
          Renewable_Evidence = ''Renewable Energy: 0.0''\<rparr>"
    by code_simp
  then show "\<exists>r. process_file (''x.pdf'', Pdf [Text ''Renewable Energy: 0.0'']) = Inr r \<and>
        Renewable_Energy r = 0 \<and> Renewable_Evidence r = ''Renewable Energy: 0.0'' \<and>
        Renewable_Evidence r \<noteq> ''Not Found''"
    by simp
qed

text \<open>
  CSR matches 0 on page one and 25 on page three: after page three the value is 25
  and the snippet is the one of page three.
\<close>

theorem C9_witness:
  "value_of CSR init_state = default_of CSR \<and>
   page_step init_state (Text ''CSR Expenditure 0'') =
     Inr \<lparr>full_text = ''CSR Expenditure 0'', csr_spend = 0, renewable_energy = 0,
          total_energy = 1, ghg_emissions = 0, csr_snippet = ''CSR Expenditure 0'',
          renew_snippet = ''Not Found''\<rparr> \<and>
   field_search CSR ''CSR Expenditure 0'' = Some (''CSR Expenditure 0'', ''0'') \<and>
   parse_number ''0'' = Some (default_of CSR) \<and>
   scan_pages \<lparr>full_text = ''CSR Expenditure 0'', csr_spend = 0, renewable_energy = 0,
          total_energy = 1, ghg_emissions = 0, csr_snippet = ''CSR Expenditure 0'',
          renew_snippet = ''Not Found''\<rparr> [Text ''Water Policy: yes''] =
     Inr \<lparr>full_text = ''CSR Expenditure 0Water Policy: yes'', csr_spend = 0,
          renewable_energy = 0, total_energy = 1, ghg_emissions = 0,
          csr_snippet = ''CSR Expenditure 0'', renew_snippet = ''Not Found''\<rparr> \<and>
   default_valued CSR (Text ''Water Policy: yes'') \<and>
   page_step \<lparr>full_text = ''CSR Expenditure 0Water Policy: yes'', csr_spend = 0,
          renewable_energy = 0, total_energy = 1, ghg_emissions = 0,
          csr_snippet = ''CSR Expenditure 0'', renew_snippet = ''Not Found''\<rparr>
       (Text ''Community spending: 25'') =
     Inr \<lparr>full_text = ''CSR Expenditure 0Water Policy: yesCommunity spending: 25'',
          csr_spend = 25, renewable_energy = 0, total_energy = 1, ghg_emissions = 0,
          csr_snippet = ''Community spending: 25'', renew_snippet = ''Not Found''\<rparr> \<and>
   field_search CSR ''Community spending: 25'' = Some (''Community spending: 25'', ''25'') \<and>
   parse_number ''25'' = Some 25"
proof -
  let ?st1 = "\<lparr>full_text = ''CSR Expenditure 0'', csr_spend = 0, renewable_energy = 0,
          total_energy = 1, ghg_emissions = 0, csr_snippet = ''CSR Expenditure 0'',
          renew_snippet = ''Not Found''\<rparr>"
  let ?st2 = "\<lparr>full_text = ''CSR Expenditure 0Water Policy: yes'', csr_spend = 0,
          renewable_energy = 0, total_energy = 1, ghg_emissions = 0,
          csr_snippet = ''CSR Expenditure 0'', renew_snippet = ''Not Found''\<rparr>"
  let ?st3 = "\<lparr>full_text = ''CSR Expenditure 0Water Policy: yesCommunity spending: 25'',
          csr_spend = 25, renewable_energy = 0, total_energy = 1, ghg_emissions = 0,
          csr_snippet = ''Community spending: 25'', renew_snippet = ''Not Found''\<rparr>"
  have a: "value_of CSR init_state = default_of CSR" by (simp add: init_state_def)
  have b: "page_step init_state (Text ''CSR Expenditure 0'') = Inr ?st1" by code_simp
  have c: "field_search CSR ''CSR Expenditure 0'' = Some (''CSR Expenditure 0'', ''0'')"
    by code_simp
  have d: "parse_number ''0'' = Some (default_of CSR)" by code_simp
  have e: "scan_pages ?st1 [Text ''Water Policy: yes''] = Inr ?st2" by code_simp
  have f: "default_valued CSR (Text ''Water Policy: yes'')" by code_simp
  have g: "page_step ?st2 (Text ''Community spending: 25'') = Inr ?st3" by code_simp
  have h: "field_search CSR ''Community spending: 25'' = Some (''Community spending: 25'', ''25'')"
    by code_simp
  have f': "\<And>pg. pg \<in> set [Text ''Water Policy: yes''] \<Longrightarrow> default_valued CSR pg"
    using f by simp
  from C9_default_valued_match_is_searched_again[THEN conjunct1, rule_format, OF a b c d e f' g h]
  have "parse_number ''25'' = Some (value_of CSR ?st3)" by blast
  then have "parse_number ''25'' = Some 25" by simp
  with a b c d e f g h show ?thesis by blast
qed

subsection \<open>C10: a page without extractable text\<close>

text \<open>
  C10. When \<^verbatim>\<open>extract_text\<close> returns \<^verbatim>\<open>None\<close> on one of the first ten pages, the
  pass ends with an exception and the document adds no row to the batch. When the pages
  before it were read without an exception, whatever they matched, the exception is the
  \<^verbatim>\<open>TypeError\<close> of \<^verbatim>\<open>full_text += text\<close>.
\<close>

theorem C10_page_without_text_excludes_document:
  assumes "NoText \<in> set (take 10 pages)"
  shows "\<exists>e. process_file (name, Pdf pages) = Inl e \<and>
           (\<forall>ps qs st. pages = ps @ NoText # qs \<and> scan_pages init_state ps = Inr st
              \<longrightarrow> e = TypeError) \<and>
           process_pdfs (Some (fs @ (name, Pdf pages) # gs)) = process_pdfs (Some (fs @ gs))"
proof -
  from scan_pages_NoText[OF assms] obtain e where
    e: "scan_pages init_state (take 10 pages) = Inl e" by blast
  then have pf: "process_file (name, Pdf pages) = Inl e" by (rule process_file_scan_Inl)
  have "e = TypeError" if p: "pages = ps @ NoText # qs" and s: "scan_pages init_state ps = Inr st"
    for ps qs st
  proof -
    from scan_pages_texts[OF s] have "NoText \<notin> set ps" by auto
    with assms p have "length ps < 10"
      by (cases "length ps < 10") (auto dest: in_set_takeD)
    with p have "take 10 pages = ps @ NoText # take (10 - length ps - 1) qs"
      by (cases "10 - length ps") auto
    with scan_pages_stops_at_NoText[OF s] e show ?thesis by simp
  qed
  moreover have "process_pdfs (Some (fs @ (name, Pdf pages) # gs)) = process_pdfs (Some (fs @ gs))"
    using pf by (simp add: process_pdfs_drop rows_of_Inl)
  ultimately show ?thesis using pf by blast
qed

text \<open>
  A first page with a CSR match and a second page without text: no row. With an
  empty string as the second page the row is there, with the CSR value of page one.
\<close>

theorem C10_witness:
  "NoText \<in> set (take 10 [Text ''CSR Expenditure 250'', NoText]) \<and>
   process_file (''a.pdf'', Pdf [Text ''CSR Expenditure 250'', NoText]) = Inl TypeError \<and>
   process_pdfs (Some ([] @ (''a.pdf'', Pdf [Text ''CSR Expenditure 250'', NoText]) # [])) = [] \<and>
   map CSR_Spend_Cr (process_pdfs (Some [(''a.pdf'', Pdf [Text ''CSR Expenditure 250'', Text ''''])])) = [250]"
proof -
  have h: "NoText \<in> set (take 10 [Text ''CSR Expenditure 250'', NoText])" by simp
  have s: "scan_pages init_state [Text ''CSR Expenditure 250''] =
      Inr \<lparr>full_text = ''CSR Expenditure 250'', csr_spend = 250, renewable_energy = 0,
         total_energy = 1, ghg_emissions = 0, csr_snippet = ''CSR Expenditure 250'',
         renew_snippet = ''Not Found''\<rparr>"
    by code_simp
  have c: "map CSR_Spend_Cr (process_pdfs (Some [(''a.pdf'', Pdf [Text ''CSR Expenditure 250'', Text ''''])])) = [250]"
    by code_simp
  from C10_page_without_text_excludes_document[OF h, of "''a.pdf''" "[]" "[]"] obtain e where
    e: "process_file (''a.pdf'', Pdf [Text ''CSR Expenditure 250'', NoText]) = Inl e"
    and t: "\<forall>ps qs st. [Text ''CSR Expenditure 250'', NoText] = ps @ NoText # qs \<and>
            scan_pages init_state ps = Inr st \<longrightarrow> e = TypeError"
    and d: "process_pdfs (Some ([] @ (''a.pdf'', Pdf [Text ''CSR Expenditure 250'', NoText]) # [])) =
            process_pdfs (Some ([] @ []))"
    by blast
  from t s have "e = TypeError"
    by (elim allE[where x = "[Text ''CSR Expenditure 250'']"] allE[where x = "[]"]) simp
  moreover have "process_pdfs (Some ([] @ [])) = []" by (simp add: process_pdfs_def)
  ultimately show ?thesis using h e d c by simp
qed

end
